theory Spec2Isabelle
  imports Main
begin

section \<open>Insertion-ordered maps and JavaScript truthiness\<close>

text \<open>
  A JavaScript \<^verbatim>\<open>Map\<close> keeps its keys in insertion order: \<^verbatim>\<open>set\<close> on a key that is
  present replaces the value in place, \<^verbatim>\<open>set\<close> on a new key appends, \<^verbatim>\<open>delete\<close>
  removes the entry. The maps of the program are association lists with these operations.
\<close>

fun map_has :: "('k \<times> 'v) list \<Rightarrow> 'k \<Rightarrow> bool" where
  "map_has [] k = False"
| "map_has ((k', v) # m) k = (k' = k \<or> map_has m k)"

fun map_get :: "('k \<times> 'v) list \<Rightarrow> 'k \<Rightarrow> 'v option" where
  "map_get [] k = None"
| "map_get ((k', v) # m) k = (if k' = k then Some v else map_get m k)"

fun map_set :: "('k \<times> 'v) list \<Rightarrow> 'k \<Rightarrow> 'v \<Rightarrow> ('k \<times> 'v) list" where
  "map_set [] k v = [(k, v)]"
| "map_set ((k', v') # m) k v = (if k' = k then (k, v) # m else (k', v') # map_set m k v)"

fun map_delete :: "('k \<times> 'v) list \<Rightarrow> 'k \<Rightarrow> ('k \<times> 'v) list" where
  "map_delete [] k = []"
| "map_delete ((k', v) # m) k = (if k' = k then map_delete m k else (k', v) # map_delete m k)"

definition map_keys :: "('k \<times> 'v) list \<Rightarrow> 'k list" where
  "map_keys m = map fst m"

text \<open>
  \<^verbatim>\<open>x || null\<close> on an optional string: \<^verbatim>\<open>undefined\<close> and the empty string are falsy.
\<close>

fun truthy_str :: "string option \<Rightarrow> bool" where
  "truthy_str None = False"
| "truthy_str (Some s) = (s \<noteq> [])"

definition or_null :: "string option \<Rightarrow> string option" where
  "or_null s = (if truthy_str s then s else None)"

section \<open>GridManager\<close>

text \<open>
  The window's content size, the grid dimensions and the view rectangles are pixel and cell
  counts: natural numbers. For naturals \<^verbatim>\<open>Math.floor(a / b)\<close> is \<open>a div b\<close> and
  \<^verbatim>\<open>a % b\<close> is \<open>a mod b\<close>; with \<open>cols = 0\<close> or \<open>rows = 0\<close> the test
  \<^verbatim>\<open>index >= cols * rows\<close> holds for every index, so the quotient by zero is never used.
  A view is the \<^verbatim>\<open>BrowserView\<close> object as far as the grid touches it: its rectangle
  (\<^verbatim>\<open>setBounds\<close>) and its auto-resize flags (\<^verbatim>\<open>setAutoResize\<close>); \<open>view_ref\<close> is the
  identity of the object. Each tracked id holds a view object of its own.
\<close>

record bounds =
  x_pos :: nat
  y_pos :: nat
  width :: nat
  height :: nat

record view =
  view_ref :: nat
  view_bounds :: bounds
  autoResize :: "bool \<times> bool"

record grid =
  views :: "(string \<times> view) list"
  cols :: nat
  rows :: nat
  maximizedId :: "string option"
  contentSize :: "nat \<times> nat"
  resizeSubscribed :: bool

text \<open>The constructor: no views, a 2 x 2 grid, nothing maximized, subscribed to resize.\<close>

definition new_grid :: "nat \<times> nat \<Rightarrow> grid" where
  "new_grid sz = \<lparr>views = [], cols = 2, rows = 2, maximizedId = None,
     contentSize = sz, resizeSubscribed = True\<rparr>"

definition new_view :: "nat \<Rightarrow> view" where
  "new_view r = \<lparr>view_ref = r,
     view_bounds = \<lparr>x_pos = 0, y_pos = 0, width = 0, height = 0\<rparr>,
     autoResize = (False, False)\<rparr>"

text \<open>
  \<^verbatim>\<open>if (this._maximizedId)\<close> tests JavaScript truthiness: \<^verbatim>\<open>null\<close> and the empty
  string are falsy.
\<close>

fun truthy_id :: "string option \<Rightarrow> bool" where
  "truthy_id None = False"
| "truthy_id (Some s) = (s \<noteq> [])"

definition setBounds :: "bounds \<Rightarrow> bool \<times> bool \<Rightarrow> view \<Rightarrow> view" where
  "setBounds b ar v = v\<lparr>view_bounds := b, autoResize := ar\<rparr>"

definition zero_bounds :: bounds where
  "zero_bounds = \<lparr>x_pos = 0, y_pos = 0, width = 0, height = 0\<rparr>"

text \<open>The maximized branch of \<^verbatim>\<open>_applyLayout\<close>: one view fills the window, the others collapse.\<close>

definition layout_maximized ::
  "string option \<Rightarrow> nat \<Rightarrow> nat \<Rightarrow> string \<times> view \<Rightarrow> string \<times> view" where
  "layout_maximized mid winWidth winHeight e =
     (if Some (fst e) = mid
      then (fst e, setBounds \<lparr>x_pos = 0, y_pos = 0, width = winWidth, height = winHeight\<rparr>
                     (True, True) (snd e))
      else (fst e, setBounds zero_bounds (False, False) (snd e)))"

text \<open>The grid branch: the loop over the entries with its running \<^verbatim>\<open>index\<close>.\<close>

fun layout_cells ::
  "nat \<Rightarrow> nat \<Rightarrow> nat \<Rightarrow> nat \<Rightarrow> nat \<Rightarrow> (string \<times> view) list \<Rightarrow> (string \<times> view) list" where
  "layout_cells c r cellWidth cellHeight index [] = []"
| "layout_cells c r cellWidth cellHeight index ((pid, v) # rest) =
     (if index \<ge> c * r
      then (pid, setBounds zero_bounds (False, False) v)
      else (pid, setBounds \<lparr>x_pos = (index mod c) * cellWidth,
                            y_pos = (index div c) * cellHeight,
                            width = cellWidth, height = cellHeight\<rparr> (False, False) v))
     # layout_cells c r cellWidth cellHeight (index + 1) rest"

definition applyLayout :: "grid \<Rightarrow> grid" where
  "applyLayout g =
     (let winWidth = fst (contentSize g); winHeight = snd (contentSize g) in
      if truthy_id (maximizedId g)
      then g\<lparr>views := map (layout_maximized (maximizedId g) winWidth winHeight) (views g)\<rparr>
      else g\<lparr>views := layout_cells (cols g) (rows g)
                          (winWidth div cols g) (winHeight div rows g) 0 (views g)\<rparr>)"

definition addView :: "string \<Rightarrow> view \<Rightarrow> grid \<Rightarrow> grid" where
  "addView profileId v g = g\<lparr>views := map_set (views g) profileId v\<rparr>"

definition removeView :: "string \<Rightarrow> grid \<Rightarrow> grid" where
  "removeView profileId g =
     (let g' = g\<lparr>views := map_delete (views g) profileId\<rparr>
      in if maximizedId g' = Some profileId then g'\<lparr>maximizedId := None\<rparr> else g')"

definition setGrid :: "nat \<Rightarrow> nat \<Rightarrow> grid \<Rightarrow> grid" where
  "setGrid c r g = applyLayout (g\<lparr>cols := c, rows := r, maximizedId := None\<rparr>)"

definition autoGrid_dims :: "nat \<Rightarrow> nat \<times> nat" where
  "autoGrid_dims count =
     (if count \<le> 1 then (1, 1)
      else if count \<le> 2 then (2, 1)
      else if count \<le> 4 then (2, 2)
      else if count \<le> 6 then (3, 2)
      else if count \<le> 9 then (3, 3)
      else (5, 2))"

definition autoGrid :: "grid \<Rightarrow> grid" where
  "autoGrid g =
     (let d = autoGrid_dims (length (views g))
      in applyLayout (g\<lparr>cols := fst d, rows := snd d, maximizedId := None\<rparr>))"

definition maximize :: "string \<Rightarrow> grid \<Rightarrow> grid" where
  "maximize profileId g =
     (if \<not> map_has (views g) profileId then g
      else applyLayout (g\<lparr>maximizedId := Some profileId\<rparr>))"

definition restoreGrid :: "grid \<Rightarrow> grid" where
  "restoreGrid g = applyLayout (g\<lparr>maximizedId := None\<rparr>)"

text \<open>The window's resize event: the content size changes and the listener recomputes.\<close>

definition onResize :: "nat \<times> nat \<Rightarrow> grid \<Rightarrow> grid" where
  "onResize sz g =
     (if resizeSubscribed g then applyLayout (g\<lparr>contentSize := sz\<rparr>)
      else g\<lparr>contentSize := sz\<rparr>)"

definition grid_destroy :: "grid \<Rightarrow> grid" where
  "grid_destroy g = g\<lparr>resizeSubscribed := False, views := []\<rparr>"

text \<open>
  The code has no visibility flag: it hides a view (\<^verbatim>\<open>// Hide views that don't fit\<close>) by
  giving it the empty rectangle. A view is visible when its rectangle has an area.
\<close>

definition visible :: "view \<Rightarrow> bool" where
  "visible v = (width (view_bounds v) > 0 \<and> height (view_bounds v) > 0)"

text \<open>What a caller observes of the layout: every tracked id with its rectangle, in order.\<close>

definition surface_bounds :: "grid \<Rightarrow> (string \<times> bounds) list" where
  "surface_bounds g = map (\<lambda>e. (fst e, view_bounds (snd e))) (views g)"

text \<open>
  Sample grids: \<open>n\<close> fresh views under the ids \<open>u\<close>, \<open>uu\<close>, \<open>uuu\<close>, ... in a window
  of 1000 x 600, and the two-view grid after \<^verbatim>\<open>autoGrid()\<close> and \<^verbatim>\<open>maximize('u')\<close>.
\<close>

definition sample_grid :: "nat \<Rightarrow> grid" where
  "sample_grid n = (new_grid (1000, 600))
     \<lparr>views := map (\<lambda>k. (replicate (Suc k) CHR ''u'', new_view k)) [0..<n]\<rparr>"

definition maximized_sample :: grid where
  "maximized_sample = maximize ''u'' (autoGrid (sample_grid 2))"

section \<open>ProfileManager\<close>

text \<open>
  A profile of the registry is the object \<^verbatim>\<open>{ partition, proxy, userAgent, session }\<close>;
  the session is Electron's, found by the partition name. The calls the registry makes on
  a session are data: what a call does inside Electron is outside the program, and whether
  it fails (the promise rejects) is given by the environment.
\<close>

record profile =
  partition_key :: string
  proxy :: "string option"
  userAgent :: "string option"

datatype session_call = SetProxy string | ClearStorageData | ClearCache | ClearAuthCache

type_synonym session_env = "string \<Rightarrow> session_call \<Rightarrow> bool"

text \<open>
  \<^verbatim>\<open>create(profileId, options)\<close>: the proxy is set when \<^verbatim>\<open>options.proxy\<close> is truthy, and
  a failure of \<^verbatim>\<open>setProxy\<close> is swallowed by \<^verbatim>\<open>.catch(() => {})\<close>. Returns the profile,
  the registry and the session calls made.
\<close>

definition pm_create ::
  "string \<Rightarrow> string option \<Rightarrow> string option \<Rightarrow> (string \<times> profile) list \<Rightarrow>
     profile \<times> (string \<times> profile) list \<times> (string \<times> session_call) list" where
  "pm_create profileId opt_proxy opt_userAgent reg =
     (let part = ''persist:'' @ profileId;
          calls = (if truthy_str opt_proxy then [(part, SetProxy (the opt_proxy))] else []);
          p = \<lparr>partition_key = part, proxy = or_null opt_proxy, userAgent = or_null opt_userAgent\<rparr>
      in (p, map_set reg profileId p, calls))"

text \<open>
  The body of the \<^verbatim>\<open>try\<close> block of \<^verbatim>\<open>destroy\<close>: the awaited calls run in order, and the
  first one that fails leaves the block for the empty \<^verbatim>\<open>catch\<close>. The result is the list of
  the calls that were made.
\<close>

fun try_calls :: "(session_call \<Rightarrow> bool) \<Rightarrow> session_call list \<Rightarrow> session_call list" where
  "try_calls fails [] = []"
| "try_calls fails (c # cs) = c # (if fails c then [] else try_calls fails cs)"

definition pm_destroy ::
  "session_env \<Rightarrow> string \<Rightarrow> (string \<times> profile) list \<Rightarrow>
     (string \<times> profile) list \<times> (string \<times> session_call) list" where
  "pm_destroy fails profileId reg =
     (case map_get reg profileId of
        None \<Rightarrow> (reg, [])
      | Some p \<Rightarrow>
          (map_delete reg profileId,
           map (Pair (partition_key p))
             (try_calls (fails (partition_key p)) [ClearStorageData, ClearCache, ClearAuthCache])))"

definition pm_list :: "(string \<times> profile) list \<Rightarrow> string list" where
  "pm_list reg = map_keys reg"

text \<open>A registry with the profile \<open>a\<close>, and a session whose storage cannot be cleared.\<close>

definition registry_a :: "(string \<times> profile) list" where
  "registry_a = fst (snd (pm_create ''a'' None None []))"

definition storage_fails :: session_env where
  "storage_fails part c = (c = ClearStorageData)"

definition never_fails :: session_env where
  "never_fails part c = False"

section \<open>Polling\<close>

text \<open>
  The values a probe hands back, as far as \<^verbatim>\<open>if (result)\<close> tells them apart, and the
  outcome of one awaited call: it returns a value or it throws (its promise rejects).
\<close>

datatype jsval = JUndefined | JNull | JBool bool | JNum int | JStr string | JObj nat


datatype attempt = Returns jsval | Throws string


text \<open>
  Time is in milliseconds. A probe is an environment: its \<open>k\<close>-th invocation has an outcome
  and takes some time. \<^verbatim>\<open>sleep(interval)\<close> is a \<^verbatim>\<open>setTimeout\<close>, which never waits less than
  1 ms, so every round of the loop moves the clock. \<open>elapsed\<close> is \<^verbatim>\<open>Date.now() - start\<close>.
  \<^verbatim>\<open>poll\<close> has no \<^verbatim>\<open>try\<close>: a probe that throws ends it with the probe's error.
\<close>

type_synonym probe = "nat \<Rightarrow> attempt \<times> nat"

definition sleep :: "nat \<Rightarrow> nat" where
  "sleep ms = max 1 ms"









fun started_at :: "probe \<Rightarrow> nat \<Rightarrow> nat \<Rightarrow> nat" where
  "started_at fn interval 0 = 0"
| "started_at fn interval (Suc k) = started_at fn interval k + snd (fn k) + sleep interval"



section \<open>Event emitters and the event-race waits\<close>

text \<open>
  An \<^verbatim>\<open>EventEmitter\<close> keeps its listeners in registration order. A listener is a function
  object: the closures the program creates are told apart by a number. \<^verbatim>\<open>on\<close> appends;
  \<^verbatim>\<open>removeListener\<close> removes the most recently added instance, if there is one.
\<close>

definition emitter_on :: "'a \<Rightarrow> 'a list \<Rightarrow> 'a list" where
  "emitter_on l ls = ls @ [l]"

definition removeListener :: "'a \<Rightarrow> 'a list \<Rightarrow> 'a list" where
  "removeListener l ls = rev (remove1 l (rev ls))"

datatype settlement = Resolved | Rejected int string

text \<open>
  \<^verbatim>\<open>ElectronPage.waitForNavigation\<close>. The state of one call: the listeners of the
  \<^verbatim>\<open>webContents\<close> (event name and closure), the flag \<^verbatim>\<open>done\<close>, whether the timer is still
  pending, and how the promise was settled. \<open>nav_onFinish\<close> and \<open>nav_onFail\<close> are the two
  closures of the call.
\<close>

record nav_wait =
  nav_listeners :: "(string \<times> nat) list"
  nav_done :: bool
  nav_timer :: bool
  nav_settled :: "settlement option"
  nav_onFinish :: nat
  nav_onFail :: nat

datatype nav_event = DidFinishLoad | DidFailLoad int string | NavTimeout

definition waitForNavigation :: "nat \<Rightarrow> nat \<Rightarrow> (string \<times> nat) list \<Rightarrow> nav_wait" where
  "waitForNavigation f g ls =
     \<lparr>nav_listeners = emitter_on (''did-fail-load'', g) (emitter_on (''did-finish-load'', f) ls),
      nav_done = False, nav_timer = True, nav_settled = None,
      nav_onFinish = f, nav_onFail = g\<rparr>"

definition nav_remove_both :: "nav_wait \<Rightarrow> (string \<times> nat) list" where
  "nav_remove_both w =
     removeListener (''did-fail-load'', nav_onFail w)
       (removeListener (''did-finish-load'', nav_onFinish w) (nav_listeners w))"

definition onFinish :: "nav_wait \<Rightarrow> nav_wait" where
  "onFinish w =
     (if \<not> nav_done w
      then w\<lparr>nav_done := True, nav_timer := False, nav_listeners := nav_remove_both w,
             nav_settled := Some Resolved\<rparr>
      else w)"

definition onFail :: "int \<Rightarrow> string \<Rightarrow> nav_wait \<Rightarrow> nav_wait" where
  "onFail code desc w =
     (if \<not> nav_done w
      then w\<lparr>nav_done := True, nav_timer := False, nav_listeners := nav_remove_both w,
             nav_settled := Some (if code = - 3 then Resolved else Rejected code desc)\<rparr>
      else w)"

text \<open>The timer's callback: \<^verbatim>\<open>if (!done) { done = true; resolve(); }\<close> and nothing else.\<close>

definition nav_onTimeout :: "nav_wait \<Rightarrow> nav_wait" where
  "nav_onTimeout w =
     (if \<not> nav_done w then w\<lparr>nav_done := True, nav_settled := Some Resolved\<rparr> else w)"

text \<open>
  One event: the emitter calls a closure of the wait only while it is registered, and the
  timer fires only while it is pending.
\<close>

fun nav_step :: "nav_event \<Rightarrow> nav_wait \<Rightarrow> nav_wait" where
  "nav_step DidFinishLoad w =
     (if (''did-finish-load'', nav_onFinish w) \<in> set (nav_listeners w) then onFinish w else w)"
| "nav_step (DidFailLoad code desc) w =
     (if (''did-fail-load'', nav_onFail w) \<in> set (nav_listeners w) then onFail code desc w else w)"
| "nav_step NavTimeout w =
     (if nav_timer w then nav_onTimeout (w\<lparr>nav_timer := False\<rparr>) else w)"

definition nav_run :: "nav_event list \<Rightarrow> nav_wait \<Rightarrow> nav_wait" where
  "nav_run evs w = fold nav_step evs w"

text \<open>
  \<^verbatim>\<open>Waiter.waitForNetworkIdle\<close>. \<open>idle_timer\<close> is the quiet timer (\<^verbatim>\<open>timer\<close>, pending),
  \<open>idle_timeoutId\<close> the outer timeout (pending). The closure \<^verbatim>\<open>onFinish\<close> is registered for
  three events.
\<close>

record idle_wait =
  idle_listeners :: "(string \<times> nat) list"
  idle_done :: bool
  idle_pending :: nat
  idle_timer :: bool
  idle_timeoutId :: bool
  idle_settled :: "settlement option"
  idle_onStart :: nat
  idle_onFinish :: nat

datatype idle_event =
  DidStartLoading | DidStopLoading | IdleDidFinishLoad | IdleDidFailLoad | QuietTimer | OuterTimeout

definition checkIdle :: "idle_wait \<Rightarrow> idle_wait" where
  "checkIdle w = (if idle_done w then w else w\<lparr>idle_timer := True\<rparr>)"

definition waitForNetworkIdle :: "nat \<Rightarrow> nat \<Rightarrow> (string \<times> nat) list \<Rightarrow> idle_wait" where
  "waitForNetworkIdle s f ls =
     checkIdle
       \<lparr>idle_listeners =
          emitter_on (''did-fail-load'', f) (emitter_on (''did-finish-load'', f)
            (emitter_on (''did-stop-loading'', f) (emitter_on (''did-start-loading'', s) ls))),
        idle_done = False, idle_pending = 0, idle_timer = False, idle_timeoutId = True,
        idle_settled = None, idle_onStart = s, idle_onFinish = f\<rparr>"

definition cleanup :: "idle_wait \<Rightarrow> idle_wait" where
  "cleanup w =
     w\<lparr>idle_timeoutId := False, idle_timer := False,
       idle_listeners :=
         removeListener (''did-fail-load'', idle_onFinish w)
           (removeListener (''did-finish-load'', idle_onFinish w)
             (removeListener (''did-stop-loading'', idle_onFinish w)
               (removeListener (''did-start-loading'', idle_onStart w) (idle_listeners w))))\<rparr>"

definition idle_onStartLoading :: "idle_wait \<Rightarrow> idle_wait" where
  "idle_onStartLoading w = w\<lparr>idle_pending := idle_pending w + 1, idle_timer := False\<rparr>"

definition idle_onFinished :: "idle_wait \<Rightarrow> idle_wait" where
  "idle_onFinished w = checkIdle (w\<lparr>idle_pending := idle_pending w - 1\<rparr>)"

definition idle_onQuiet :: "idle_wait \<Rightarrow> idle_wait" where
  "idle_onQuiet w =
     (if \<not> idle_done w \<and> idle_pending w \<le> 0
      then (cleanup (w\<lparr>idle_done := True\<rparr>))\<lparr>idle_settled := Some Resolved\<rparr>
      else w)"

definition idle_onTimeout :: "idle_wait \<Rightarrow> idle_wait" where
  "idle_onTimeout w =
     (let w' = cleanup w
      in if \<not> idle_done w' then w'\<lparr>idle_done := True, idle_settled := Some Resolved\<rparr> else w')"

fun idle_step :: "idle_event \<Rightarrow> idle_wait \<Rightarrow> idle_wait" where
  "idle_step DidStartLoading w =
     (if (''did-start-loading'', idle_onStart w) \<in> set (idle_listeners w)
      then idle_onStartLoading w else w)"
| "idle_step DidStopLoading w =
     (if (''did-stop-loading'', idle_onFinish w) \<in> set (idle_listeners w)
      then idle_onFinished w else w)"
| "idle_step IdleDidFinishLoad w =
     (if (''did-finish-load'', idle_onFinish w) \<in> set (idle_listeners w)
      then idle_onFinished w else w)"
| "idle_step IdleDidFailLoad w =
     (if (''did-fail-load'', idle_onFinish w) \<in> set (idle_listeners w)
      then idle_onFinished w else w)"
| "idle_step QuietTimer w =
     (if idle_timer w then idle_onQuiet (w\<lparr>idle_timer := False\<rparr>) else w)"
| "idle_step OuterTimeout w =
     (if idle_timeoutId w then idle_onTimeout (w\<lparr>idle_timeoutId := False\<rparr>) else w)"

definition idle_run :: "idle_event list \<Rightarrow> idle_wait \<Rightarrow> idle_wait" where
  "idle_run evs w = fold idle_step evs w"

text \<open>
  The state of \<^verbatim>\<open>waitForNetworkIdle\<close> as seen from outside, for the listeners \<open>ls\<close> from
  before the call: until the wait settles its four subscriptions are in place, and once it
  has settled they are gone and no timer is pending.
\<close>

definition idle_inv :: "(string \<times> nat) list \<Rightarrow> idle_wait \<Rightarrow> bool" where
  "idle_inv ls w =
     (if idle_done w
      then idle_listeners w = ls \<and> idle_settled w = Some Resolved \<and>
           \<not> idle_timer w \<and> \<not> idle_timeoutId w
      else idle_settled w = None \<and>
           idle_listeners w = ls @ [(''did-start-loading'', idle_onStart w),
             (''did-stop-loading'', idle_onFinish w), (''did-finish-load'', idle_onFinish w),
             (''did-fail-load'', idle_onFinish w)])"

section \<open>The control channel and the feature handlers\<close>

text \<open>
  The commands the program passes to \<^verbatim>\<open>debugger.sendCommand\<close>, with the parameters it
  gives them. \<^verbatim>\<open>Fetch.enable\<close> is called with one pattern per resource type
  (\<^verbatim>\<open>blockResourceTypes\<close>) or with the pattern \<^verbatim>\<open>*\<close> (\<^verbatim>\<open>interceptRequests\<close>).
\<close>

datatype cdp_command =
    NetworkEnable
  | NetworkDisable
  | NetworkSetBlockedURLs "string list"
  | FetchEnableTypes "string list"
  | FetchEnableAll
  | FetchContinueRequest string "string option" "(string \<times> string) list option"
  | FetchFailRequest string string
  | PageEnable
  | PageSetInterceptFileChooserDialog bool
  | DOMSetFileInputFiles nat "string list"
  | PageHandleJavaScriptDialog bool string

text \<open>
  What the program cannot decide: whether \<^verbatim>\<open>debugger.attach\<close> succeeds, and whether a
  command is accepted (its promise resolves) or rejected.
\<close>

record cdp_env =
  attach_ok :: bool
  send_ok :: "cdp_command \<Rightarrow> bool"

text \<open>The events of the channel (\<^verbatim>\<open>'message'\<close> with a method and its parameters).\<close>

record request =
  requestId :: string
  resourceType :: string
  request_url :: string

record dialog =
  dialog_type :: string
  dialog_message :: string
  defaultPrompt :: string
  dialog_url :: string

datatype message =
    RequestPaused request
  | JavascriptDialogOpening dialog
  | FileChooserOpened nat
  | OtherMessage string

fun method_of :: "message \<Rightarrow> string" where
  "method_of (RequestPaused r) = ''Fetch.requestPaused''"
| "method_of (JavascriptDialogOpening d) = ''Page.javascriptDialogOpening''"
| "method_of (FileChooserOpened n) = ''Page.fileChooserOpened''"
| "method_of (OtherMessage m) = m"

text \<open>
  The callbacks of the caller. An interception handler throws or returns a value: a falsy
  one, or an object of which the program reads \<^verbatim>\<open>action\<close>, \<^verbatim>\<open>url\<close> and \<^verbatim>\<open>headers\<close>. A
  dialog handler throws or returns a falsy value or an object with \<^verbatim>\<open>accept\<close> and
  \<^verbatim>\<open>text\<close>.
\<close>

record intercept_result =
  res_action :: "string option"
  res_url :: "string option"
  res_headers :: "(string \<times> string) list option"

datatype handler_outcome = HandlerThrows | HandlerReturns "intercept_result option"

record dialog_result =
  res_accept :: "bool option"
  res_text :: "string option"

datatype dialog_outcome = DialogHandlerThrows | DialogHandlerReturns "dialog_result option"

record dialog_options =
  acceptAlerts :: bool
  acceptConfirms :: bool
  promptText :: string
  acceptBeforeUnload :: bool

record dialog_enable_options =
  opt_acceptAlerts :: "bool option"
  opt_acceptConfirms :: "bool option"
  opt_promptText :: "string option"
  opt_acceptBeforeUnload :: "bool option"
  opt_handler :: "(dialog \<Rightarrow> dialog_outcome) option"

text \<open>
  The listeners the program puts on the debugger's \<^verbatim>\<open>'message'\<close> event: the closure of
  \<^verbatim>\<open>blockResourceTypes\<close> (with its \<^verbatim>\<open>typesArray\<close>), the closure of \<^verbatim>\<open>interceptRequests\<close>,
  the closure of \<^verbatim>\<open>interceptFileChooser\<close> (with \<^verbatim>\<open>files\<close> and \<^verbatim>\<open>persistent\<close>) and the
  closure of \<^verbatim>\<open>DialogHandler.enable\<close>. Each one returns at once unless the message has the
  method it listens to. A registered listener is the closure with its identity.
\<close>

datatype handler =
    BlockByType "string list"
  | InterceptWithHandler
  | ChooseFiles "string list" bool
  | HandleDialog

fun listens_to :: "handler \<Rightarrow> string" where
  "listens_to (BlockByType types) = ''Fetch.requestPaused''"
| "listens_to InterceptWithHandler = ''Fetch.requestPaused''"
| "listens_to (ChooseFiles files persistent) = ''Page.fileChooserOpened''"
| "listens_to HandleDialog = ''Page.javascriptDialogOpening''"

type_synonym listener = "nat \<times> handler"

text \<open>
  Downloads, as far as the manager's bookkeeping and the teardown go: the state of a record,
  the item Electron hands over, and what the caller's download handler does (it throws, or
  returns a falsy value, or an object of which \<^verbatim>\<open>accept\<close> is read). A download
  \<^verbatim>\<open>dl_n\<close> is known by its number \<open>n\<close>.
\<close>

datatype download_state = Progressing | Completed | Cancelled | Interrupted

record download_item =
  item_url :: string
  item_filename :: string

datatype download_outcome =
    DownloadHandlerThrows
  | DownloadHandlerReturnsFalsy
  | DownloadHandlerReturns "bool option"

record download_options =
  opt_savePath :: "string option"
  opt_autoAccept :: "bool option"
  opt_download_handler :: "(nat \<Rightarrow> download_item \<Rightarrow> download_outcome) option"

text \<open>
  An \<^verbatim>\<open>ElectronPage\<close> with what it owns: its \<^verbatim>\<open>webContents\<close> (listeners, user agent), the
  debugger of the \<^verbatim>\<open>webContents\<close> (attached or not, its \<^verbatim>\<open>'message'\<close> listeners, the
  commands sent so far) and the fields of its \<^verbatim>\<open>Network\<close>, \<^verbatim>\<open>DialogHandler\<close> and
  \<^verbatim>\<open>DownloadManager\<close>. \<open>nextClosure\<close> numbers the closures the page creates. The
  closure of \<^verbatim>\<open>DownloadManager.enable\<close> listens on the session and carries the
  \<^verbatim>\<open>autoAccept\<close> it captured.
\<close>

record page =
  page_ref :: nat
  destroyed :: bool
  disableImages :: bool
  disableAnimations :: bool
  wc_listeners :: "(string \<times> nat) list"
  wc_userAgent :: "string option"
  attached :: bool
  dbg_listeners :: "listener list"
  sent :: "cdp_command list"
  nextClosure :: nat
  onFinishLoad :: nat
  onCrash :: nat
  net_enabled :: bool
  interceptHandler :: "(request \<Rightarrow> handler_outcome) option"
  onRequestPaused :: "listener option"
  fileChooserListener :: "listener option"
  dlg_enabled :: bool
  dlg_handler :: "(dialog \<Rightarrow> dialog_outcome) option"
  defaultOptions :: dialog_options
  onDialog :: "listener option"
  dialogHistory :: "dialog list"
  dl_enabled :: bool
  downloadPath :: "string option"
  dl_handler :: "(nat \<Rightarrow> download_item \<Rightarrow> download_outcome) option"
  onWillDownload :: "(nat \<times> bool) option"
  session_listeners :: "(string \<times> nat \<times> bool) list"
  downloadCounter :: nat
  downloads :: "(nat \<times> download_state) list"

text \<open>The constructor registers \<^verbatim>\<open>_onFinishLoad\<close> and \<^verbatim>\<open>_onCrash\<close> on the \<^verbatim>\<open>webContents\<close>.\<close>

definition new_page :: "nat \<Rightarrow> bool \<Rightarrow> bool \<Rightarrow> page" where
  "new_page r images animations =
     \<lparr>page_ref = r, destroyed = False, disableImages = images, disableAnimations = animations,
      wc_listeners = [(''did-finish-load'', 0), (''render-process-gone'', 1)],
      wc_userAgent = None, attached = False, dbg_listeners = [], sent = [],
      nextClosure = 2, onFinishLoad = 0, onCrash = 1,
      net_enabled = False, interceptHandler = None, onRequestPaused = None,
      fileChooserListener = None,
      dlg_enabled = False, dlg_handler = None,
      defaultOptions = \<lparr>acceptAlerts = True, acceptConfirms = True, promptText = [],
        acceptBeforeUnload = True\<rparr>,
      onDialog = None, dialogHistory = [],
      dl_enabled = False, downloadPath = None, dl_handler = None, onWillDownload = None,
      session_listeners = [], downloadCounter = 0, downloads = []\<rparr>"

subsection \<open>utils: attaching, detaching, sending\<close>

text \<open>
  The functions return whether they returned normally (\<open>True\<close>) or threw, and the page.
  \<^verbatim>\<open>safeAttachDebugger\<close> never throws: its result is its return value.
\<close>

definition safeAttachDebugger :: "cdp_env \<Rightarrow> page \<Rightarrow> bool \<times> page" where
  "safeAttachDebugger env p =
     (if attached p then (True, p)
      else if attach_ok env then (True, p\<lparr>attached := True\<rparr>)
      else (False, p))"

definition cdpSend :: "cdp_env \<Rightarrow> cdp_command \<Rightarrow> page \<Rightarrow> bool \<times> page" where
  "cdpSend env cmd p =
     (let r = (if \<not> attached p then safeAttachDebugger env p else (True, p))
      in if \<not> fst r then (False, snd r)
         else (send_ok env cmd, (snd r)\<lparr>sent := sent (snd r) @ [cmd]\<rparr>))"

subsection \<open>Network\<close>

definition network_enable :: "cdp_env \<Rightarrow> page \<Rightarrow> bool \<times> page" where
  "network_enable env p =
     (if net_enabled p then (True, p)
      else let p1 = snd (safeAttachDebugger env p);
               r = cdpSend env NetworkEnable p1
           in if fst r then (True, (snd r)\<lparr>net_enabled := True\<rparr>) else (False, snd r))"

definition network_disable :: "cdp_env \<Rightarrow> page \<Rightarrow> page" where
  "network_disable env p =
     (if \<not> net_enabled p then p
      else (snd (cdpSend env NetworkDisable p))\<lparr>net_enabled := False\<rparr>)"

text \<open>
  The end of \<^verbatim>\<open>blockResourceTypes\<close> and of \<^verbatim>\<open>interceptRequests\<close>, after the last
  \<^verbatim>\<open>await\<close>: remove the old listener if any, create the closure, keep it in
  \<^verbatim>\<open>_onRequestPaused\<close> and register it.
\<close>

definition install_onRequestPaused :: "handler \<Rightarrow> page \<Rightarrow> page" where
  "install_onRequestPaused h p =
     (let ls = (case onRequestPaused p of
                  Some old \<Rightarrow> removeListener old (dbg_listeners p)
                | None \<Rightarrow> dbg_listeners p);
          l = (nextClosure p, h)
      in p\<lparr>onRequestPaused := Some l, dbg_listeners := emitter_on l ls,
            nextClosure := nextClosure p + 1\<rparr>)"

definition blockResourceTypes :: "cdp_env \<Rightarrow> string list \<Rightarrow> page \<Rightarrow> bool \<times> page" where
  "blockResourceTypes env typesArray p =
     (let r1 = network_enable env p in
      if \<not> fst r1 then (False, snd r1) else
      let r2 = cdpSend env (NetworkSetBlockedURLs []) (snd r1) in
      if \<not> fst r2 then (False, snd r2) else
      let r3 = cdpSend env (FetchEnableTypes typesArray) (snd r2) in
      if \<not> fst r3 then (False, snd r3) else
      (True, install_onRequestPaused (BlockByType typesArray) (snd r3)))"

definition interceptRequests ::
  "cdp_env \<Rightarrow> (request \<Rightarrow> handler_outcome) option \<Rightarrow> page \<Rightarrow> bool \<times> page" where
  "interceptRequests env h p =
     (let r1 = network_enable env p in
      if \<not> fst r1 then (False, snd r1) else
      let p2 = (snd r1)\<lparr>interceptHandler := h\<rparr>;
          r3 = cdpSend env FetchEnableAll p2 in
      if \<not> fst r3 then (False, snd r3) else
      (True, install_onRequestPaused InterceptWithHandler (snd r3)))"

definition network_destroy :: "page \<Rightarrow> page" where
  "network_destroy p =
     (let p1 = (case onRequestPaused p of
                  Some old \<Rightarrow> p\<lparr>dbg_listeners := removeListener old (dbg_listeners p),
                                 onRequestPaused := None\<rparr>
                | None \<Rightarrow> p)
      in p1\<lparr>interceptHandler := None, net_enabled := False\<rparr>)"

text \<open>The listener of \<^verbatim>\<open>blockResourceTypes\<close> on a paused request; both sends have \<^verbatim>\<open>.catch\<close>.\<close>

definition on_block :: "cdp_env \<Rightarrow> string list \<Rightarrow> request \<Rightarrow> page \<Rightarrow> page" where
  "on_block env typesArray r p =
     (if resourceType r \<in> set typesArray
      then snd (cdpSend env (FetchFailRequest (requestId r) ''BlockedByClient'') p)
      else snd (cdpSend env (FetchContinueRequest (requestId r) None None) p))"

text \<open>
  The listener of \<^verbatim>\<open>interceptRequests\<close> on a paused request. \<open>continue_unmodified\<close> is the
  \<^verbatim>\<open>catch\<close> block; \<open>send_or_fallback\<close> is an awaited send inside \<^verbatim>\<open>try\<close>. A result whose
  action is neither \<^verbatim>\<open>continue\<close> nor \<^verbatim>\<open>block\<close> sends nothing.
\<close>

definition continue_unmodified :: "cdp_env \<Rightarrow> request \<Rightarrow> page \<Rightarrow> page" where
  "continue_unmodified env r p =
     snd (cdpSend env (FetchContinueRequest (requestId r) None None) p)"

definition send_or_fallback :: "cdp_env \<Rightarrow> request \<Rightarrow> cdp_command \<Rightarrow> page \<Rightarrow> page" where
  "send_or_fallback env r cmd p =
     (let s = cdpSend env cmd p in if fst s then snd s else continue_unmodified env r (snd s))"

definition on_intercept :: "cdp_env \<Rightarrow> request \<Rightarrow> page \<Rightarrow> page" where
  "on_intercept env r p =
     (case interceptHandler p of
        None \<Rightarrow> continue_unmodified env r p
      | Some h \<Rightarrow>
          (case h r of
             HandlerThrows \<Rightarrow> continue_unmodified env r p
           | HandlerReturns None \<Rightarrow>
               send_or_fallback env r (FetchContinueRequest (requestId r) None None) p
           | HandlerReturns (Some result) \<Rightarrow>
               if res_action result = Some ''continue''
               then send_or_fallback env r
                      (FetchContinueRequest (requestId r) (or_null (res_url result))
                         (res_headers result)) p
               else if res_action result = Some ''block''
               then send_or_fallback env r (FetchFailRequest (requestId r) ''BlockedByClient'') p
               else p))"

subsection \<open>DialogHandler\<close>

text \<open>
  The end of \<^verbatim>\<open>DialogHandler.enable\<close>, after its last \<^verbatim>\<open>await\<close>: keep the handler and the
  defaults, create the closure, register it and set \<^verbatim>\<open>_enabled\<close>. The flag
  \<^verbatim>\<open>_enabled\<close> is not read again here.
\<close>

definition install_onDialog :: "dialog_enable_options \<Rightarrow> page \<Rightarrow> page" where
  "install_onDialog options p =
     (let l = (nextClosure p, HandleDialog)
      in p\<lparr>dlg_handler := opt_handler options,
            defaultOptions :=
              \<lparr>acceptAlerts = (opt_acceptAlerts options \<noteq> Some False),
               acceptConfirms = (opt_acceptConfirms options \<noteq> Some False),
               promptText = (case opt_promptText options of Some t \<Rightarrow> t | None \<Rightarrow> []),
               acceptBeforeUnload = (opt_acceptBeforeUnload options \<noteq> Some False)\<rparr>,
            onDialog := Some l, dbg_listeners := emitter_on l (dbg_listeners p),
            nextClosure := nextClosure p + 1, dlg_enabled := True\<rparr>)"

definition dialogs_enable :: "cdp_env \<Rightarrow> dialog_enable_options \<Rightarrow> page \<Rightarrow> bool \<times> page" where
  "dialogs_enable env options p =
     (if dlg_enabled p then (True, p) else
      let p1 = snd (safeAttachDebugger env p);
          r = cdpSend env PageEnable p1 in
      if \<not> fst r then (False, snd r) else
      (True, install_onDialog options (snd r)))"

definition dialogs_disable :: "page \<Rightarrow> page" where
  "dialogs_disable p =
     (if \<not> dlg_enabled p then p else
      let p1 = (case onDialog p of
                  Some l \<Rightarrow> p\<lparr>dbg_listeners := removeListener l (dbg_listeners p),
                               onDialog := None\<rparr>
                | None \<Rightarrow> p)
      in p1\<lparr>dlg_handler := None, dlg_enabled := False\<rparr>)"

definition dialogs_destroy :: "page \<Rightarrow> page" where
  "dialogs_destroy p = (dialogs_disable p)\<lparr>dialogHistory := []\<rparr>"

text \<open>
  The defaults for a dialog when there is no custom handler: the \<^verbatim>\<open>switch\<close> has no
  \<^verbatim>\<open>default\<close> case, so for any other type \<^verbatim>\<open>accept\<close> keeps its initial value \<^verbatim>\<open>true\<close>.
\<close>

definition default_accept :: "dialog_options \<Rightarrow> string \<Rightarrow> bool" where
  "default_accept opts t =
     (if t = ''alert'' then acceptAlerts opts
      else if t = ''confirm'' then acceptConfirms opts
      else if t = ''prompt'' then True
      else if t = ''beforeunload'' then acceptBeforeUnload opts
      else True)"

definition dialog_decision :: "page \<Rightarrow> dialog \<Rightarrow> bool \<times> string" where
  "dialog_decision p d =
     (case dlg_handler p of
        Some h \<Rightarrow>
          (case h d of
             DialogHandlerThrows \<Rightarrow> (True, promptText (defaultOptions p))
           | DialogHandlerReturns None \<Rightarrow> (True, promptText (defaultOptions p))
           | DialogHandlerReturns (Some result) \<Rightarrow>
               (res_accept result \<noteq> Some False,
                case res_text result of Some t \<Rightarrow> t | None \<Rightarrow> promptText (defaultOptions p)))
      | None \<Rightarrow> (default_accept (defaultOptions p) (dialog_type d), promptText (defaultOptions p)))"

definition on_dialog :: "cdp_env \<Rightarrow> dialog \<Rightarrow> page \<Rightarrow> page" where
  "on_dialog env d p =
     (let p1 = p\<lparr>dialogHistory := dialogHistory p @ [d]\<rparr>;
          dec = dialog_decision p1 d
      in snd (cdpSend env (PageHandleJavaScriptDialog (fst dec) (snd dec)) p1))"

subsection \<open>File chooser interception (ElectronPage)\<close>

definition stopInterceptFileChooser :: "cdp_env \<Rightarrow> page \<Rightarrow> page" where
  "stopInterceptFileChooser env p =
     (let p1 = (case fileChooserListener p of
                  Some l \<Rightarrow> p\<lparr>dbg_listeners := removeListener l (dbg_listeners p),
                               fileChooserListener := None\<rparr>
                | None \<Rightarrow> p)
      in snd (cdpSend env (PageSetInterceptFileChooserDialog False) p1))"

text \<open>
  The end of \<^verbatim>\<open>interceptFileChooser\<close>, after its last \<^verbatim>\<open>await\<close>: remove the old listener
  if any, create the closure, keep it in \<^verbatim>\<open>_fileChooserListener\<close> and register it.
\<close>

definition install_fileChooserListener :: "string list \<Rightarrow> bool \<Rightarrow> page \<Rightarrow> page" where
  "install_fileChooserListener files persistent p =
     (let ls = (case fileChooserListener p of
                  Some old \<Rightarrow> removeListener old (dbg_listeners p)
                | None \<Rightarrow> dbg_listeners p);
          l = (nextClosure p, ChooseFiles files persistent)
      in p\<lparr>fileChooserListener := Some l, dbg_listeners := emitter_on l ls,
            nextClosure := nextClosure p + 1\<rparr>)"

definition interceptFileChooser :: "cdp_env \<Rightarrow> string list \<Rightarrow> bool \<Rightarrow> page \<Rightarrow> bool \<times> page" where
  "interceptFileChooser env files persistent p =
     (let p1 = snd (safeAttachDebugger env p);
          r2 = cdpSend env PageEnable p1 in
      if \<not> fst r2 then (False, snd r2) else
      let r3 = cdpSend env (PageSetInterceptFileChooserDialog True) (snd r2) in
      if \<not> fst r3 then (False, snd r3) else
      (True, install_fileChooserListener files persistent (snd r3)))"

definition on_fileChooser :: "cdp_env \<Rightarrow> string list \<Rightarrow> bool \<Rightarrow> nat \<Rightarrow> page \<Rightarrow> page" where
  "on_fileChooser env files persistent backendNodeId p =
     (let p1 = snd (cdpSend env (DOMSetFileInputFiles backendNodeId files) p)
      in if \<not> persistent then stopInterceptFileChooser env p1 else p1)"

subsection \<open>Delivery of a channel event\<close>

text \<open>
  A listener called with a message, and the debugger emitting a message: the emitter calls
  the listeners that were registered when the event was emitted, in order.
\<close>

fun run_listener :: "cdp_env \<Rightarrow> message \<Rightarrow> listener \<Rightarrow> page \<Rightarrow> page" where
  "run_listener env (RequestPaused r) (i, BlockByType typesArray) p = on_block env typesArray r p"
| "run_listener env (RequestPaused r) (i, InterceptWithHandler) p = on_intercept env r p"
| "run_listener env (FileChooserOpened n) (i, ChooseFiles files persistent) p =
     on_fileChooser env files persistent n p"
| "run_listener env (JavascriptDialogOpening d) (i, HandleDialog) p = on_dialog env d p"
| "run_listener env msg l p = p"

definition deliver :: "cdp_env \<Rightarrow> message \<Rightarrow> page \<Rightarrow> page" where
  "deliver env msg p = fold (run_listener env msg) (dbg_listeners p) p"

text \<open>The registrations for an event-method: the listeners that act on its messages.\<close>

definition registrations :: "string \<Rightarrow> page \<Rightarrow> listener list" where
  "registrations m p = filter (\<lambda>l. listens_to (snd l) = m) (dbg_listeners p)"

subsection \<open>Performance options and the page's lifecycle\<close>

text \<open>
  \<^verbatim>\<open>_applyPerformanceOptions\<close> runs on \<^verbatim>\<open>did-finish-load\<close>; everything it does is inside
  \<^verbatim>\<open>try\<close>. Injecting the style sheet does not touch the channel.
\<close>

definition applyPerformanceOptions :: "cdp_env \<Rightarrow> page \<Rightarrow> page" where
  "applyPerformanceOptions env p =
     (if destroyed p then p
      else if disableImages p then snd (blockResourceTypes env [''Image'', ''Media''] p)
      else p)"

definition page_didFinishLoad :: "cdp_env \<Rightarrow> page \<Rightarrow> page" where
  "page_didFinishLoad env p =
     (if (''did-finish-load'', onFinishLoad p) \<in> set (wc_listeners p)
      then applyPerformanceOptions env p else p)"

text \<open>
  The calls a teardown makes on the objects around the program, in the order in which it
  makes them. \<open>WebContentsClose\<close> records what \<^verbatim>\<open>debugger.isAttached()\<close> is at the moment
  of the call.
\<close>

datatype effect =
    WcRemoveListener nat string
  | DebuggerRemoveListener nat nat
  | DownloadCancel nat nat
  | SessionRemoveListener nat
  | DebuggerDetach nat
  | GridRemoveView string
  | WindowRemoveBrowserView nat
  | WebContentsClose nat bool
  | SessionCall string session_call

text \<open>\<^verbatim>\<open>Network.destroy\<close>, \<^verbatim>\<open>DialogHandler.destroy\<close>, \<^verbatim>\<open>DownloadManager.destroy\<close> with their calls.\<close>

definition network_destroy_effects :: "page \<Rightarrow> effect list" where
  "network_destroy_effects p =
     (case onRequestPaused p of
        Some old \<Rightarrow> [DebuggerRemoveListener (page_ref p) (fst old)]
      | None \<Rightarrow> [])"

definition dialogs_destroy_effects :: "page \<Rightarrow> effect list" where
  "dialogs_destroy_effects p =
     (if \<not> dlg_enabled p then []
      else case onDialog p of
             Some l \<Rightarrow> [DebuggerRemoveListener (page_ref p) (fst l)]
           | None \<Rightarrow> [])"

text \<open>
  \<^verbatim>\<open>DownloadManager.enable\<close> (nothing awaited); the body of the \<^verbatim>\<open>will-download\<close>
  listener, which numbers the download, decides whether to accept it and records it as
  progressing or, when refused, as cancelled; the session emitting \<^verbatim>\<open>will-download\<close>;
  and an item reporting a new state (\<^verbatim>\<open>updated\<close>, \<^verbatim>\<open>done\<close>) for an accepted download.
\<close>

definition downloads_enable :: "download_options \<Rightarrow> page \<Rightarrow> page" where
  "downloads_enable options p =
     (if dl_enabled p then p else
      let l = (nextClosure p, opt_autoAccept options \<noteq> Some False)
      in p\<lparr>downloadPath := or_null (opt_savePath options),
            dl_handler := opt_download_handler options,
            onWillDownload := Some l,
            session_listeners := emitter_on (''will-download'', l) (session_listeners p),
            nextClosure := nextClosure p + 1, dl_enabled := True\<rparr>)"

definition on_willDownload :: "bool \<Rightarrow> download_item \<Rightarrow> page \<Rightarrow> page" where
  "on_willDownload autoAccept item p =
     (let n = downloadCounter p + 1;
          accept = (case dl_handler p of
                      None \<Rightarrow> autoAccept
                    | Some h \<Rightarrow>
                        (case h n item of
                           DownloadHandlerThrows \<Rightarrow> autoAccept
                         | DownloadHandlerReturnsFalsy \<Rightarrow> autoAccept
                         | DownloadHandlerReturns a \<Rightarrow> a \<noteq> Some False))
      in p\<lparr>downloadCounter := n,
            downloads := map_set (downloads p) n (if accept then Progressing else Cancelled)\<rparr>)"

definition session_willDownload :: "download_item \<Rightarrow> page \<Rightarrow> page" where
  "session_willDownload item p =
     fold (\<lambda>l q. if fst l = ''will-download'' then on_willDownload (snd (snd l)) item q else q)
       (session_listeners p) p"

definition item_state :: "nat \<Rightarrow> download_state \<Rightarrow> page \<Rightarrow> page" where
  "item_state n st p =
     p\<lparr>downloads := map (\<lambda>d. if fst d = n \<and> snd d \<in> {Progressing, Interrupted}
                            then (n, st) else d) (downloads p)\<rparr>"

definition downloads_disable :: "page \<Rightarrow> page" where
  "downloads_disable p =
     (if \<not> dl_enabled p then p else
      let p1 = (case onWillDownload p of
                  Some l \<Rightarrow> p\<lparr>session_listeners :=
                                 removeListener (''will-download'', l) (session_listeners p),
                               onWillDownload := None\<rparr>
                | None \<Rightarrow> p)
      in p1\<lparr>dl_enabled := False\<rparr>)"

definition downloads_destroy :: "page \<Rightarrow> page" where
  "downloads_destroy p = (downloads_disable p)\<lparr>downloads := []\<rparr>"

definition downloads_destroy_effects :: "page \<Rightarrow> effect list" where
  "downloads_destroy_effects p =
     map (\<lambda>d. DownloadCancel (page_ref p) (fst d)) (filter (\<lambda>d. snd d = Progressing) (downloads p))
     @ (if \<not> dl_enabled p then []
        else case onWillDownload p of
               Some l \<Rightarrow> [SessionRemoveListener (page_ref p)]
             | None \<Rightarrow> [])"

definition safeDetachDebugger :: "page \<Rightarrow> page" where
  "safeDetachDebugger p = (if attached p then p\<lparr>attached := False\<rparr> else p)"

definition safeDetachDebugger_effects :: "page \<Rightarrow> effect list" where
  "safeDetachDebugger_effects p = (if attached p then [DebuggerDetach (page_ref p)] else [])"

text \<open>
  \<^verbatim>\<open>ElectronPage.destroy\<close>: a second call returns at once. Otherwise it removes the two
  listeners of the constructor, destroys the three sub-modules and detaches the debugger.
\<close>

definition page_destroy :: "page \<Rightarrow> page \<times> effect list" where
  "page_destroy p =
     (if destroyed p then (p, []) else
      let p1 = p\<lparr>destroyed := True,
                 wc_listeners :=
                   removeListener (''render-process-gone'', onCrash p)
                     (removeListener (''did-finish-load'', onFinishLoad p) (wc_listeners p))\<rparr>;
          e1 = [WcRemoveListener (page_ref p) ''did-finish-load'',
                WcRemoveListener (page_ref p) ''render-process-gone''];
          p2 = network_destroy p1; e2 = network_destroy_effects p1;
          p3 = dialogs_destroy p2; e3 = dialogs_destroy_effects p2;
          p4 = downloads_destroy p3; e4 = downloads_destroy_effects p3;
          p5 = safeDetachDebugger p4; e5 = safeDetachDebugger_effects p4
      in (p5, e1 @ e2 @ e3 @ e4 @ e5))"

section \<open>BrowserManager\<close>

text \<open>
  The manager with its three maps and the window. An entry of \<^verbatim>\<open>_profiles\<close> is
  \<^verbatim>\<open>{ view, page }\<close>: the view by its identity (the grid holds the same object, with its
  rectangle), the page with its state. \<open>browserViews\<close> are the views added to the main
  window; \<open>nextView\<close> numbers the \<^verbatim>\<open>BrowserView\<close> objects the manager creates.
\<close>

record entry =
  entry_view :: nat
  entry_page :: page

record manager =
  profiles :: "(string \<times> entry) list"
  profileManager :: "(string \<times> profile) list"
  gridManager :: grid
  browserViews :: "nat list"
  nextView :: nat

record profile_options =
  opt_proxy :: "string option"
  opt_userAgent :: "string option"
  opt_disableImages :: bool
  opt_disableAnimations :: bool

text \<open>
  What the manager cannot decide at teardown: whether \<^verbatim>\<open>removeBrowserView\<close> throws (the
  window is closed already) and which calls on a session fail.
\<close>

record manager_env =
  window_closed :: bool
  session_fails :: session_env

definition new_manager :: "nat \<times> nat \<Rightarrow> manager" where
  "new_manager sz =
     \<lparr>profiles = [], profileManager = [], gridManager = new_grid sz, browserViews = [],
      nextView = 0\<rparr>"

definition createProfile :: "string \<Rightarrow> profile_options \<Rightarrow> manager \<Rightarrow> page \<times> manager" where
  "createProfile profileId options m =
     (case map_get (profiles m) profileId of
        Some e \<Rightarrow> (entry_page e, m)
      | None \<Rightarrow>
          let created = pm_create profileId (opt_proxy options) (opt_userAgent options)
                          (profileManager m);
              v = nextView m;
              pg = (new_page v (opt_disableImages options) (opt_disableAnimations options))
                     \<lparr>wc_userAgent := or_null (opt_userAgent options)\<rparr>
          in (pg,
              m\<lparr>profileManager := fst (snd created),
                browserViews := browserViews m @ [v],
                profiles := map_set (profiles m) profileId \<lparr>entry_view = v, entry_page = pg\<rparr>,
                gridManager := autoGrid (addView profileId (new_view v) (gridManager m)),
                nextView := v + 1\<rparr>))"

definition destroyProfile :: "manager_env \<Rightarrow> string \<Rightarrow> manager \<Rightarrow> manager \<times> effect list" where
  "destroyProfile env profileId m =
     (case map_get (profiles m) profileId of
        None \<Rightarrow> (m, [])
      | Some e \<Rightarrow>
          let d = page_destroy (entry_page e);
              g1 = removeView profileId (gridManager m);
              bv = (if window_closed env then browserViews m
                    else removeAll (entry_view e) (browserViews m));
              closing = WebContentsClose (entry_view e) (attached (fst d));
              s = pm_destroy (session_fails env) profileId (profileManager m);
              ps = map_delete (profiles m) profileId;
              g2 = (if length ps > 0 then autoGrid g1 else g1)
          in (m\<lparr>profiles := ps, profileManager := fst s, gridManager := g2, browserViews := bv\<rparr>,
              snd d @ [GridRemoveView profileId, WindowRemoveBrowserView (entry_view e), closing]
                @ map (\<lambda>c. SessionCall (fst c) (snd c)) (snd s)))"

definition getProfile :: "string \<Rightarrow> manager \<Rightarrow> page option" where
  "getProfile profileId m = map_option entry_page (map_get (profiles m) profileId)"

definition listProfiles :: "manager \<Rightarrow> string list" where
  "listProfiles m = map_keys (profiles m)"

text \<open>
  A call of the caller on the handle of a profile: the page object is shared between the
  caller and the manager's entry.
\<close>

definition on_page :: "string \<Rightarrow> (page \<Rightarrow> page) \<Rightarrow> manager \<Rightarrow> manager" where
  "on_page profileId f m =
     (case map_get (profiles m) profileId of
        None \<Rightarrow> m
      | Some e \<Rightarrow> m\<lparr>profiles := map_set (profiles m) profileId
                                   (e\<lparr>entry_page := f (entry_page e)\<rparr>)\<rparr>)"

section \<open>Histories of a page, and sample states\<close>

text \<open>
  What can happen to a page between its construction and its end when the caller makes
  its calls in sequence, awaiting each: the calls on the page and its sub-modules, each run
  to completion, and the events of the channel and of the \<^verbatim>\<open>webContents\<close>, each listener
  run to completion. Calls that overlap are the subject of the section on overlapping
  calls. Every call carries the environment it runs in.
  \<open>OpCdpSend\<close> stands for the methods that only send a command (touch input, extra
  headers, response bodies).
\<close>

datatype page_op =
    OpSafeAttachDebugger cdp_env
  | OpCdpSend cdp_env cdp_command
  | OpNetworkEnable cdp_env
  | OpNetworkDisable cdp_env
  | OpBlockResourceTypes cdp_env "string list"
  | OpInterceptRequests cdp_env "(request \<Rightarrow> handler_outcome) option"
  | OpNetworkDestroy
  | OpInterceptFileChooser cdp_env "string list" bool
  | OpStopInterceptFileChooser cdp_env
  | OpDialogsEnable cdp_env dialog_enable_options
  | OpDialogsDisable
  | OpDialogsDestroy
  | OpMessage cdp_env message
  | OpDidFinishLoad cdp_env
  | OpDownloadsEnable download_options
  | OpWillDownload download_item
  | OpItemState nat download_state
  | OpDownloadsDisable
  | OpDownloadsDestroy
  | OpDestroy

fun apply_op :: "page_op \<Rightarrow> page \<Rightarrow> page" where
  "apply_op (OpSafeAttachDebugger env) p = snd (safeAttachDebugger env p)"
| "apply_op (OpCdpSend env cmd) p = snd (cdpSend env cmd p)"
| "apply_op (OpNetworkEnable env) p = snd (network_enable env p)"
| "apply_op (OpNetworkDisable env) p = network_disable env p"
| "apply_op (OpBlockResourceTypes env typesArray) p = snd (blockResourceTypes env typesArray p)"
| "apply_op (OpInterceptRequests env h) p = snd (interceptRequests env h p)"
| "apply_op OpNetworkDestroy p = network_destroy p"
| "apply_op (OpInterceptFileChooser env files persistent) p =
     snd (interceptFileChooser env files persistent p)"
| "apply_op (OpStopInterceptFileChooser env) p = stopInterceptFileChooser env p"
| "apply_op (OpDialogsEnable env options) p = snd (dialogs_enable env options p)"
| "apply_op OpDialogsDisable p = dialogs_disable p"
| "apply_op OpDialogsDestroy p = dialogs_destroy p"
| "apply_op (OpMessage env msg) p = deliver env msg p"
| "apply_op (OpDidFinishLoad env) p = page_didFinishLoad env p"
| "apply_op (OpDownloadsEnable options) p = downloads_enable options p"
| "apply_op (OpWillDownload item) p = session_willDownload item p"
| "apply_op (OpItemState n st) p = item_state n st p"
| "apply_op OpDownloadsDisable p = downloads_disable p"
| "apply_op OpDownloadsDestroy p = downloads_destroy p"
| "apply_op OpDestroy p = fst (page_destroy p)"

definition page_run :: "page_op list \<Rightarrow> page \<Rightarrow> page" where
  "page_run ops p = fold apply_op ops p"

text \<open>
  The link between the listeners on the channel and the fields that remember them: for
  each of the three event-methods the registered listeners are exactly the one the field
  holds, if it holds one; a disabled dialog handler holds none; every closure on the
  channel was numbered before \<open>nextClosure\<close>.
\<close>

fun option_list :: "'a option \<Rightarrow> 'a list" where
  "option_list None = []"
| "option_list (Some x) = [x]"

definition chan_inv :: "page \<Rightarrow> bool" where
  "chan_inv p =
     (registrations ''Fetch.requestPaused'' p = option_list (onRequestPaused p) \<and>
      registrations ''Page.fileChooserOpened'' p = option_list (fileChooserListener p) \<and>
      registrations ''Page.javascriptDialogOpening'' p = option_list (onDialog p) \<and>
      (dlg_enabled p \<or> onDialog p = None) \<and>
      list_all (\<lambda>l. fst l < nextClosure p) (dbg_listeners p))"

text \<open>
  Two pages that agree on the channel's listeners and on the fields that remember them;
  and a listener list after the listener a field holds, if any, was removed from it.
\<close>

definition same_channel :: "page \<Rightarrow> page \<Rightarrow> bool" where
  "same_channel q p =
     (dbg_listeners q = dbg_listeners p \<and> onRequestPaused q = onRequestPaused p \<and>
      fileChooserListener q = fileChooserListener p \<and> onDialog q = onDialog p \<and>
      dlg_enabled q = dlg_enabled p \<and> nextClosure q = nextClosure p)"

definition removed :: "listener option \<Rightarrow> listener list \<Rightarrow> listener list" where
  "removed old ls = (case old of Some x \<Rightarrow> removeListener x ls | None \<Rightarrow> ls)"

text \<open>
  A page at some point of its life: created by the manager (with or without a user agent)
  and then taken through a history.
\<close>

definition history_page :: "nat \<Rightarrow> bool \<Rightarrow> bool \<Rightarrow> string option \<Rightarrow> page_op list \<Rightarrow> page" where
  "history_page v images animations ua ops =
     page_run ops ((new_page v images animations)\<lparr>wc_userAgent := ua\<rparr>)"

text \<open>The commands a call or an event has added to those sent before.\<close>

definition sent_since :: "page \<Rightarrow> page \<Rightarrow> cdp_command list" where
  "sent_since p p' = drop (length (sent p)) (sent p')"

text \<open>
  Sample environments, pages and events: a channel that attaches and accepts every
  command; a page with an interception handler that throws; a page with the dialog handler
  enabled with its defaults; a page whose handle was destroyed by the caller and used again.
\<close>

definition ok_env :: cdp_env where
  "ok_env = \<lparr>attach_ok = True, send_ok = (\<lambda>c. True)\<rparr>"

definition sample_page :: page where
  "sample_page = new_page 0 False False"


definition default_dialog_options :: dialog_enable_options where
  "default_dialog_options =
     \<lparr>opt_acceptAlerts = None, opt_acceptConfirms = None, opt_promptText = None,
      opt_acceptBeforeUnload = None, opt_handler = None\<rparr>"

definition dialog_page :: page where
  "dialog_page = snd (dialogs_enable ok_env default_dialog_options sample_page)"

definition sample_request :: request where
  "sample_request =
     \<lparr>requestId = ''r1'', resourceType = ''Image'', request_url = ''https://example.com/a.png''\<rparr>"

definition odd_dialog :: dialog where
  "odd_dialog =
     \<lparr>dialog_type = ''custom'', dialog_message = ''hello'', defaultPrompt = [], dialog_url = []\<rparr>"

definition modify_page :: page where
  "modify_page =
     snd (interceptRequests ok_env
            (Some (\<lambda>r. HandlerReturns (Some \<lparr>res_action = Some ''modify'',
                      res_url = Some ''https://example.com/b.png'', res_headers = None\<rparr>)))
            sample_page)"

definition no_options :: profile_options where
  "no_options = \<lparr>opt_proxy = None, opt_userAgent = None, opt_disableImages = False,
     opt_disableAnimations = False\<rparr>"

definition calm_env :: manager_env where
  "calm_env = \<lparr>window_closed = False, session_fails = never_fails\<rparr>"

definition manager_a :: manager where
  "manager_a = snd (createProfile ''a'' no_options (new_manager (1000, 600)))"

definition page_a :: page where
  "page_a = fst (createProfile ''a'' no_options (new_manager (1000, 600)))"

definition manager_a_reused :: manager where
  "manager_a_reused =
     on_page ''a'' (\<lambda>p. snd (network_enable ok_env p))
       (on_page ''a'' (\<lambda>p. fst (page_destroy p)) manager_a)"

definition busy_page :: page where
  "busy_page =
     history_page 0 False False None
       [OpBlockResourceTypes ok_env [''Image''], OpInterceptFileChooser ok_env [''/tmp/a.png''] True]"

text \<open>
  The step of the teardown a call belongs to: (1) disposing the page's handlers and
  detaching the channel, (2) unregistering from the grid, (3) detaching the view from the
  window, (4) closing the content context, (5) the session registry's destroy.
\<close>

fun teardown_step :: "effect \<Rightarrow> nat" where
  "teardown_step (WcRemoveListener v ev) = 1"
| "teardown_step (DebuggerRemoveListener v l) = 1"
| "teardown_step (DownloadCancel v d) = 1"
| "teardown_step (SessionRemoveListener v) = 1"
| "teardown_step (DebuggerDetach v) = 1"
| "teardown_step (GridRemoveView pid) = 2"
| "teardown_step (WindowRemoveBrowserView v) = 3"
| "teardown_step (WebContentsClose v a) = 4"
| "teardown_step (SessionCall part c) = 5"

definition other_options :: profile_options where
  "other_options = \<lparr>opt_proxy = Some ''http://proxy:8080'', opt_userAgent = Some ''UA'',
     opt_disableImages = True, opt_disableAnimations = True\<rparr>"

text \<open>
  The profile \<open>a\<close> with every handler of its page in use: images blocked, dialogs handled,
  file choosers intercepted, downloads tracked with one download in progress.
\<close>

definition sample_download_options :: download_options where
  "sample_download_options =
     \<lparr>opt_savePath = Some ''/tmp'', opt_autoAccept = None, opt_download_handler = None\<rparr>"

definition sample_item :: download_item where
  "sample_item = \<lparr>item_url = ''https://example.com/f.zip'', item_filename = ''f.zip''\<rparr>"

definition handlers_ops :: "page_op list" where
  "handlers_ops =
     [OpBlockResourceTypes ok_env [''Image''], OpDialogsEnable ok_env default_dialog_options,
      OpInterceptFileChooser ok_env [''/tmp/a.png''] True,
      OpDownloadsEnable sample_download_options, OpWillDownload sample_item]"

definition handlers_page :: page where
  "handlers_page = history_page 0 False False None handlers_ops"

definition manager_a_busy :: manager where
  "manager_a_busy = on_page ''a'' (page_run handlers_ops) manager_a"


section \<open>Overlapping calls\<close>

text \<open>
  An \<^verbatim>\<open>async\<close> method runs until its first \<^verbatim>\<open>await\<close> when it is called, and after every
  \<^verbatim>\<open>await\<close> it goes on only when the scheduler resumes it; in between, other calls and
  events run on the same page. A task is what is left of a call: nothing, or the piece of
  code up to the next \<^verbatim>\<open>await\<close>, which changes the page and leaves the rest. The methods
  are written with the code after the \<^verbatim>\<open>await\<close> as a continuation: \<open>k True\<close> is that
  code when the awaited promise resolves, \<open>k False\<close> when it rejects (for
  \<^verbatim>\<open>safeAttachDebugger\<close>, which never rejects, the argument is the value it returns).
\<close>

datatype task = Done | Step "page \<Rightarrow> page \<times> task"

type_synonym segment = "page \<Rightarrow> page \<times> task"

type_synonym continuation = "bool \<Rightarrow> segment"

text \<open>The caller does nothing after the call.\<close>

definition finished :: continuation where
  "finished ok p = (p, Done)"

definition safeAttachDebugger_async :: "cdp_env \<Rightarrow> continuation \<Rightarrow> segment" where
  "safeAttachDebugger_async env k p =
     (let r = safeAttachDebugger env p in (snd r, Step (k (fst r))))"

definition cdpSend_async :: "cdp_env \<Rightarrow> cdp_command \<Rightarrow> continuation \<Rightarrow> segment" where
  "cdpSend_async env cmd k p =
     (if \<not> attached p
      then safeAttachDebugger_async env
             (\<lambda>ok q. if \<not> ok then (q, Step (k False))
                     else (q\<lparr>sent := sent q @ [cmd]\<rparr>, Step (k (send_ok env cmd)))) p
      else (p\<lparr>sent := sent p @ [cmd]\<rparr>, Step (k (send_ok env cmd))))"

definition network_enable_async :: "cdp_env \<Rightarrow> continuation \<Rightarrow> segment" where
  "network_enable_async env k p =
     (if net_enabled p then (p, Step (k True))
      else safeAttachDebugger_async env
             (\<lambda>attached_ok.
                cdpSend_async env NetworkEnable
                  (\<lambda>ok q. if ok then (q\<lparr>net_enabled := True\<rparr>, Step (k True))
                          else (q, Step (k False)))) p)"

definition network_disable_async :: "cdp_env \<Rightarrow> continuation \<Rightarrow> segment" where
  "network_disable_async env k p =
     (if \<not> net_enabled p then (p, Step (k True))
      else cdpSend_async env NetworkDisable
             (\<lambda>ok q. (q\<lparr>net_enabled := False\<rparr>, Step (k True))) p)"

definition blockResourceTypes_async ::
  "cdp_env \<Rightarrow> string list \<Rightarrow> continuation \<Rightarrow> segment" where
  "blockResourceTypes_async env typesArray k =
     network_enable_async env
       (\<lambda>ok1. if \<not> ok1 then (\<lambda>q. (q, Step (k False))) else
          cdpSend_async env (NetworkSetBlockedURLs [])
            (\<lambda>ok2. if \<not> ok2 then (\<lambda>q. (q, Step (k False))) else
               cdpSend_async env (FetchEnableTypes typesArray)
                 (\<lambda>ok3 q. if \<not> ok3 then (q, Step (k False))
                          else (install_onRequestPaused (BlockByType typesArray) q,
                                Step (k True)))))"

definition interceptRequests_async ::
  "cdp_env \<Rightarrow> (request \<Rightarrow> handler_outcome) option \<Rightarrow> continuation \<Rightarrow> segment" where
  "interceptRequests_async env h k =
     network_enable_async env
       (\<lambda>ok1 q1. if \<not> ok1 then (q1, Step (k False)) else
          cdpSend_async env FetchEnableAll
            (\<lambda>ok3 q. if \<not> ok3 then (q, Step (k False))
                     else (install_onRequestPaused InterceptWithHandler q, Step (k True)))
            (q1\<lparr>interceptHandler := h\<rparr>))"

definition stopInterceptFileChooser_async :: "cdp_env \<Rightarrow> continuation \<Rightarrow> segment" where
  "stopInterceptFileChooser_async env k p =
     (let p1 = (case fileChooserListener p of
                  Some l \<Rightarrow> p\<lparr>dbg_listeners := removeListener l (dbg_listeners p),
                               fileChooserListener := None\<rparr>
                | None \<Rightarrow> p)
      in cdpSend_async env (PageSetInterceptFileChooserDialog False)
           (\<lambda>ok q. (q, Step (k True))) p1)"

definition interceptFileChooser_async ::
  "cdp_env \<Rightarrow> string list \<Rightarrow> bool \<Rightarrow> continuation \<Rightarrow> segment" where
  "interceptFileChooser_async env files persistent k =
     safeAttachDebugger_async env
       (\<lambda>attached_ok.
          cdpSend_async env PageEnable
            (\<lambda>ok2. if \<not> ok2 then (\<lambda>q. (q, Step (k False))) else
               cdpSend_async env (PageSetInterceptFileChooserDialog True)
                 (\<lambda>ok3 q. if \<not> ok3 then (q, Step (k False))
                          else (install_fileChooserListener files persistent q,
                                Step (k True)))))"

definition dialogs_enable_async ::
  "cdp_env \<Rightarrow> dialog_enable_options \<Rightarrow> continuation \<Rightarrow> segment" where
  "dialogs_enable_async env options k p =
     (if dlg_enabled p then (p, Step (k True))
      else safeAttachDebugger_async env
             (\<lambda>attached_ok.
                cdpSend_async env PageEnable
                  (\<lambda>ok q. if \<not> ok then (q, Step (k False))
                          else (install_onDialog options q, Step (k True)))) p)"

text \<open>
  The listeners. The one of \<^verbatim>\<open>blockResourceTypes\<close> starts its send and returns; the one of
  \<^verbatim>\<open>interceptRequests\<close> calls the caller's handler and awaits it, then awaits its sends;
  the dialog listener awaits the custom handler if there is one; the file chooser listener
  awaits its send and then starts \<^verbatim>\<open>stopInterceptFileChooser\<close> without awaiting it.
\<close>

definition continue_unmodified_async :: "cdp_env \<Rightarrow> request \<Rightarrow> segment" where
  "continue_unmodified_async env r =
     cdpSend_async env (FetchContinueRequest (requestId r) None None) finished"

definition send_or_fallback_async :: "cdp_env \<Rightarrow> request \<Rightarrow> cdp_command \<Rightarrow> segment" where
  "send_or_fallback_async env r cmd =
     cdpSend_async env cmd
       (\<lambda>ok q. if ok then (q, Done) else continue_unmodified_async env r q)"

definition on_block_async :: "cdp_env \<Rightarrow> string list \<Rightarrow> request \<Rightarrow> segment" where
  "on_block_async env typesArray r =
     (if resourceType r \<in> set typesArray
      then cdpSend_async env (FetchFailRequest (requestId r) ''BlockedByClient'') finished
      else cdpSend_async env (FetchContinueRequest (requestId r) None None) finished)"

definition on_intercept_async :: "cdp_env \<Rightarrow> request \<Rightarrow> segment" where
  "on_intercept_async env r p =
     (case interceptHandler p of
        None \<Rightarrow> continue_unmodified_async env r p
      | Some h \<Rightarrow>
          (p, Step
            (case h r of
               HandlerThrows \<Rightarrow> continue_unmodified_async env r
             | HandlerReturns None \<Rightarrow>
                 send_or_fallback_async env r (FetchContinueRequest (requestId r) None None)
             | HandlerReturns (Some result) \<Rightarrow>
                 if res_action result = Some ''continue''
                 then send_or_fallback_async env r
                        (FetchContinueRequest (requestId r) (or_null (res_url result))
                           (res_headers result))
                 else if res_action result = Some ''block''
                 then send_or_fallback_async env r
                        (FetchFailRequest (requestId r) ''BlockedByClient'')
                 else (\<lambda>q. (q, Done)))))"

definition on_dialog_async :: "cdp_env \<Rightarrow> dialog \<Rightarrow> segment" where
  "on_dialog_async env d p =
     (let p1 = p\<lparr>dialogHistory := dialogHistory p @ [d]\<rparr>;
          dec = dialog_decision p1 d
      in case dlg_handler p1 of
           None \<Rightarrow> cdpSend_async env (PageHandleJavaScriptDialog (fst dec) (snd dec)) finished p1
         | Some h \<Rightarrow>
             (p1, Step (cdpSend_async env (PageHandleJavaScriptDialog (fst dec) (snd dec))
                          finished)))"

definition on_fileChooser_async :: "cdp_env \<Rightarrow> string list \<Rightarrow> bool \<Rightarrow> nat \<Rightarrow> segment" where
  "on_fileChooser_async env files persistent backendNodeId =
     cdpSend_async env (DOMSetFileInputFiles backendNodeId files)
       (\<lambda>ok q. if \<not> persistent then stopInterceptFileChooser_async env finished q
               else (q, Done))"

fun run_listener_async :: "cdp_env \<Rightarrow> message \<Rightarrow> listener \<Rightarrow> segment" where
  "run_listener_async env (RequestPaused r) (i, BlockByType typesArray) p =
     on_block_async env typesArray r p"
| "run_listener_async env (RequestPaused r) (i, InterceptWithHandler) p =
     on_intercept_async env r p"
| "run_listener_async env (FileChooserOpened n) (i, ChooseFiles files persistent) p =
     on_fileChooser_async env files persistent n p"
| "run_listener_async env (JavascriptDialogOpening d) (i, HandleDialog) p =
     on_dialog_async env d p"
| "run_listener_async env msg l p = (p, Done)"

text \<open>
  The debugger emits a message: every listener registered at that moment is called, in
  order, and runs up to its first \<^verbatim>\<open>await\<close>; what is left of each is a new task.
\<close>

definition deliver_async :: "cdp_env \<Rightarrow> message \<Rightarrow> page \<Rightarrow> page \<times> task list" where
  "deliver_async env msg p =
     fold (\<lambda>l s. let r = run_listener_async env msg l (fst s) in (fst r, snd s @ [snd r]))
       (dbg_listeners p) (p, [])"

definition applyPerformanceOptions_async :: "cdp_env \<Rightarrow> segment" where
  "applyPerformanceOptions_async env p =
     (if destroyed p then (p, Done)
      else if disableImages p then blockResourceTypes_async env [''Image'', ''Media''] finished p
      else (p, Done))"

definition page_didFinishLoad_async :: "cdp_env \<Rightarrow> segment" where
  "page_didFinishLoad_async env p =
     (if (''did-finish-load'', onFinishLoad p) \<in> set (wc_listeners p)
      then applyPerformanceOptions_async env p else (p, Done))"

text \<open>
  A page with the tasks that are pending on it, and what can happen next: the caller starts
  a call, the scheduler resumes one of the pending tasks, the debugger or the
  \<^verbatim>\<open>webContents\<close> emits an event, or the caller makes one of the calls that await nothing.
\<close>

datatype call =
    CallSafeAttachDebugger cdp_env
  | CallCdpSend cdp_env cdp_command
  | CallNetworkEnable cdp_env
  | CallNetworkDisable cdp_env
  | CallBlockResourceTypes cdp_env "string list"
  | CallInterceptRequests cdp_env "(request \<Rightarrow> handler_outcome) option"
  | CallInterceptFileChooser cdp_env "string list" bool
  | CallStopInterceptFileChooser cdp_env
  | CallDialogsEnable cdp_env dialog_enable_options

fun start_call :: "call \<Rightarrow> segment" where
  "start_call (CallSafeAttachDebugger env) = safeAttachDebugger_async env finished"
| "start_call (CallCdpSend env cmd) = cdpSend_async env cmd finished"
| "start_call (CallNetworkEnable env) = network_enable_async env finished"
| "start_call (CallNetworkDisable env) = network_disable_async env finished"
| "start_call (CallBlockResourceTypes env typesArray) =
     blockResourceTypes_async env typesArray finished"
| "start_call (CallInterceptRequests env h) = interceptRequests_async env h finished"
| "start_call (CallInterceptFileChooser env files persistent) =
     interceptFileChooser_async env files persistent finished"
| "start_call (CallStopInterceptFileChooser env) = stopInterceptFileChooser_async env finished"
| "start_call (CallDialogsEnable env options) = dialogs_enable_async env options finished"

datatype sync_call =
    SyncNetworkDestroy
  | SyncDialogsDisable
  | SyncDialogsDestroy
  | SyncDownloadsEnable download_options
  | SyncDownloadsDisable
  | SyncDownloadsDestroy
  | SyncDestroy

fun run_sync :: "sync_call \<Rightarrow> page \<Rightarrow> page" where
  "run_sync SyncNetworkDestroy p = network_destroy p"
| "run_sync SyncDialogsDisable p = dialogs_disable p"
| "run_sync SyncDialogsDestroy p = dialogs_destroy p"
| "run_sync (SyncDownloadsEnable options) p = downloads_enable options p"
| "run_sync SyncDownloadsDisable p = downloads_disable p"
| "run_sync SyncDownloadsDestroy p = downloads_destroy p"
| "run_sync SyncDestroy p = fst (page_destroy p)"

datatype action =
    Start call
  | Resume nat
  | Emit cdp_env message
  | EmitDidFinishLoad cdp_env
  | Sync sync_call

definition resume :: "nat \<Rightarrow> page \<times> task list \<Rightarrow> page \<times> task list" where
  "resume i s =
     (if i < length (snd s)
      then (case snd s ! i of
              Done \<Rightarrow> (fst s, take i (snd s) @ drop (Suc i) (snd s))
            | Step f \<Rightarrow> (let r = f (fst s) in (fst r, (snd s)[i := snd r])))
      else s)"

fun sys_step :: "action \<Rightarrow> page \<times> task list \<Rightarrow> page \<times> task list" where
  "sys_step (Start c) s = (let r = start_call c (fst s) in (fst r, snd s @ [snd r]))"
| "sys_step (Resume i) s = resume i s"
| "sys_step (Emit env msg) s = (let r = deliver_async env msg (fst s) in (fst r, snd s @ snd r))"
| "sys_step (EmitDidFinishLoad env) s =
     (let r = page_didFinishLoad_async env (fst s) in (fst r, snd s @ [snd r]))"
| "sys_step (Sync c) s = (run_sync c (fst s), snd s)"

definition sys_run :: "action list \<Rightarrow> page \<times> task list \<Rightarrow> page \<times> task list" where
  "sys_run acts s = fold sys_step acts s"

definition overlapped_page ::
  "nat \<Rightarrow> bool \<Rightarrow> bool \<Rightarrow> string option \<Rightarrow> action list \<Rightarrow> page" where
  "overlapped_page v images animations ua acts =
     fst (sys_run acts ((new_page v images animations)\<lparr>wc_userAgent := ua\<rparr>, []))"

text \<open>A call that runs with nothing in between: its task is resumed until nothing is left.\<close>

fun run_alone :: "nat \<Rightarrow> page \<times> task \<Rightarrow> page" where
  "run_alone 0 s = fst s"
| "run_alone (Suc n) (p, Done) = p"
| "run_alone (Suc n) (p, Step f) = run_alone n (f p)"

text \<open>
  The same calls with each method run as one step, as when the caller awaits every call
  before anything else happens; and a task that, resumed often enough with nothing in
  between, comes to its end with the page \<open>q\<close>.
\<close>

fun call_alone :: "call \<Rightarrow> page \<Rightarrow> page" where
  "call_alone (CallSafeAttachDebugger env) p = snd (safeAttachDebugger env p)"
| "call_alone (CallCdpSend env cmd) p = snd (cdpSend env cmd p)"
| "call_alone (CallNetworkEnable env) p = snd (network_enable env p)"
| "call_alone (CallNetworkDisable env) p = network_disable env p"
| "call_alone (CallBlockResourceTypes env typesArray) p =
     snd (blockResourceTypes env typesArray p)"
| "call_alone (CallInterceptRequests env h) p = snd (interceptRequests env h p)"
| "call_alone (CallInterceptFileChooser env files persistent) p =
     snd (interceptFileChooser env files persistent p)"
| "call_alone (CallStopInterceptFileChooser env) p = stopInterceptFileChooser env p"
| "call_alone (CallDialogsEnable env options) p = snd (dialogs_enable env options p)"

definition ends_in :: "page \<times> task \<Rightarrow> page \<Rightarrow> bool" where
  "ends_in s q = (\<exists>m. \<forall>n. run_alone (m + n) s = q)"

text \<open>
  What overlapping calls keep of the link between listeners and fields: the link for
  \<^verbatim>\<open>Fetch.requestPaused\<close> and for \<^verbatim>\<open>Page.fileChooserOpened\<close>, where the old listener is
  removed and the new one registered in one piece of code; for dialogs only that the field
  holds a dialog listener. A task is harmless when every piece of it keeps this.
\<close>

definition slot_inv :: "page \<Rightarrow> bool" where
  "slot_inv p =
     (registrations ''Fetch.requestPaused'' p = option_list (onRequestPaused p) \<and>
      registrations ''Page.fileChooserOpened'' p = option_list (fileChooserListener p) \<and>
      list_all (\<lambda>l. listens_to (snd l) = ''Page.javascriptDialogOpening'')
        (option_list (onDialog p)) \<and>
      list_all (\<lambda>l. fst l < nextClosure p) (dbg_listeners p))"

inductive task_ok :: "task \<Rightarrow> bool" where
  task_ok_Done: "task_ok Done"
| task_ok_Step: "(\<And>p. slot_inv p \<Longrightarrow> slot_inv (fst (f p)) \<and> task_ok (snd (f p))) \<Longrightarrow> task_ok (Step f)"

definition segment_ok :: "segment \<Rightarrow> bool" where
  "segment_ok f = (\<forall>p. slot_inv p \<longrightarrow> slot_inv (fst (f p)) \<and> task_ok (snd (f p)))"

text \<open>A page with its pending tasks, all of them harmless.\<close>

definition sys_ok :: "page \<times> task list \<Rightarrow> bool" where
  "sys_ok s = (slot_inv (fst s) \<and> list_all task_ok (snd s))"

text \<open>
  Two calls of \<^verbatim>\<open>dialogs.enable()\<close> made one after the other without awaiting the first,
  both resumed to their end; and the same page after a dialog has opened.
\<close>

definition twice_enabled :: "page \<times> task list" where
  "twice_enabled =
     sys_run [Start (CallDialogsEnable ok_env default_dialog_options),
              Start (CallDialogsEnable ok_env default_dialog_options),
              Resume 0, Resume 1, Resume 0, Resume 1]
       (sample_page, [])"

text \<open>Options for a dialog handler that would dismiss confirms.\<close>

definition strict_dialog_options :: dialog_enable_options where
  "strict_dialog_options =
     \<lparr>opt_acceptAlerts = None, opt_acceptConfirms = Some False, opt_promptText = None,
      opt_acceptBeforeUnload = None, opt_handler = None\<rparr>"

text \<open>
  A call of \<^verbatim>\<open>blockResourceTypes\<close> and a call of \<^verbatim>\<open>interceptRequests\<close> made without
  awaiting the first, resumed in turn until both have installed their listener; then a call
  of \<^verbatim>\<open>interceptFileChooser\<close> resumed to its end.
\<close>

definition racing_calls :: "action list" where
  "racing_calls =
     [Start (CallBlockResourceTypes ok_env [''Image'']), Start (CallInterceptRequests ok_env None),
      Resume 0, Resume 1, Resume 0, Resume 1, Resume 0, Resume 1, Resume 0, Resume 1, Resume 0,
      Start (CallInterceptFileChooser ok_env [''/tmp/a.png''] True),
      Resume 2, Resume 2, Resume 2]"

definition racing_page :: page where
  "racing_page = overlapped_page 0 False False None racing_calls"

text \<open>The profile \<open>a\<close> after these overlapping calls on its page.\<close>

definition manager_a_racing :: manager where
  "manager_a_racing = on_page ''a'' (\<lambda>p. fst (sys_run racing_calls (p, []))) manager_a"

section \<open>Properties of the layout engine\<close>

lemma layout_cells_length: "length (layout_cells c r cw ch k xs) = length xs"
  by (induction xs arbitrary: k) auto

lemma layout_cells_keys: "map fst (layout_cells c r cw ch k xs) = map fst xs"
  by (induction xs arbitrary: k) auto

lemma layout_cells_nth:
  "i < length xs \<Longrightarrow>
   layout_cells c r cw ch k xs ! i =
     (fst (xs ! i),
      if k + i \<ge> c * r then setBounds zero_bounds (False, False) (snd (xs ! i))
      else setBounds \<lparr>x_pos = ((k + i) mod c) * cw, y_pos = ((k + i) div c) * ch,
                      width = cw, height = ch\<rparr> (False, False) (snd (xs ! i)))"
proof (induction xs arbitrary: k i)
  case Nil
  then show ?case by simp
next
  case (Cons e xs)
  obtain pid v where e: "e = (pid, v)" by (cases e)
  show ?case
  proof (cases i)
    case 0
    then show ?thesis by (simp add: e)
  next
    case (Suc j)
    with Cons.prems have "j < length xs" by simp
    from Cons.IH [OF this, of "k + 1"] show ?thesis by (simp add: e Suc)
  qed
qed

lemma setBounds_absorb: "setBounds b ar (setBounds b' ar' v) = setBounds b ar v"
  by (simp add: setBounds_def)

lemma layout_cells_absorb:
  "layout_cells c r cw ch k (map (layout_maximized m w h) xs) = layout_cells c r cw ch k xs"
  by (induction xs arbitrary: k) (auto simp: layout_maximized_def setBounds_absorb)

lemma layout_cells_idem:
  "layout_cells c r cw ch k (layout_cells c' r' cw' ch' k xs) = layout_cells c r cw ch k xs"
  by (induction xs arbitrary: k) (auto simp: setBounds_absorb)

lemma layout_maximized_idem:
  "layout_maximized m w h (layout_maximized m' w' h' e) = layout_maximized m w h e"
  by (simp add: layout_maximized_def setBounds_absorb)

lemma applyLayout_idem: "applyLayout (applyLayout g) = applyLayout g"
  by (simp add: applyLayout_def Let_def layout_cells_idem layout_maximized_idem comp_def)

lemma applyLayout_fields:
  "cols (applyLayout g) = cols g" "rows (applyLayout g) = rows g"
  "maximizedId (applyLayout g) = maximizedId g" "contentSize (applyLayout g) = contentSize g"
  by (simp_all add: applyLayout_def Let_def)

lemma applyLayout_length: "length (views (applyLayout g)) = length (views g)"
  by (simp add: applyLayout_def Let_def layout_cells_length)

text \<open>
  Claim C4. For every count \<open>n\<close> of tracked views, \<^verbatim>\<open>autoGrid()\<close> sets
  \<open>(cols, rows)\<close> by the fixed table: 1 gives (1,1), 2 gives (2,1), 3..4 give (2,2),
  5..6 give (3,2), 7..9 give (3,3), 10 and more give (5,2). It clears \<open>maximizedId\<close> and
  recomputes the bounds: the views carry the grid layout of the new dimensions, and a
  further recompute changes nothing.
\<close>

theorem autoGrid_table:
  "(length (views g) = 1 \<longrightarrow> (cols (autoGrid g), rows (autoGrid g)) = (1, 1)) \<and>
   (length (views g) = 2 \<longrightarrow> (cols (autoGrid g), rows (autoGrid g)) = (2, 1)) \<and>
   (length (views g) \<in> {3..4} \<longrightarrow> (cols (autoGrid g), rows (autoGrid g)) = (2, 2)) \<and>
   (length (views g) \<in> {5..6} \<longrightarrow> (cols (autoGrid g), rows (autoGrid g)) = (3, 2)) \<and>
   (length (views g) \<in> {7..9} \<longrightarrow> (cols (autoGrid g), rows (autoGrid g)) = (3, 3)) \<and>
   (length (views g) \<ge> 10 \<longrightarrow> (cols (autoGrid g), rows (autoGrid g)) = (5, 2)) \<and>
   maximizedId (autoGrid g) = None \<and>
   applyLayout (autoGrid g) = autoGrid g \<and>
   views (autoGrid g) =
     layout_cells (cols (autoGrid g)) (rows (autoGrid g))
       (fst (contentSize g) div cols (autoGrid g)) (snd (contentSize g) div rows (autoGrid g)) 0 (views g)"
  by (simp add: autoGrid_def Let_def applyLayout_fields applyLayout_idem autoGrid_dims_def)
     (simp add: applyLayout_def)

text \<open>
  The table at the counts 1, 2, 4, 5, 9 and 15.
\<close>

theorem autoGrid_table_witness:
  "(cols (autoGrid (sample_grid 1)), rows (autoGrid (sample_grid 1))) = (1, 1) \<and>
   (cols (autoGrid (sample_grid 2)), rows (autoGrid (sample_grid 2))) = (2, 1) \<and>
   (cols (autoGrid (sample_grid 4)), rows (autoGrid (sample_grid 4))) = (2, 2) \<and>
   (cols (autoGrid (sample_grid 5)), rows (autoGrid (sample_grid 5))) = (3, 2) \<and>
   (cols (autoGrid (sample_grid 9)), rows (autoGrid (sample_grid 9))) = (3, 3) \<and>
   (cols (autoGrid (sample_grid 15)), rows (autoGrid (sample_grid 15))) = (5, 2) \<and>
   maximizedId (autoGrid (sample_grid 15)) = None"
  using autoGrid_table [of "sample_grid 1"] autoGrid_table [of "sample_grid 2"]
    autoGrid_table [of "sample_grid 4"] autoGrid_table [of "sample_grid 5"]
    autoGrid_table [of "sample_grid 9"] autoGrid_table [of "sample_grid 15"]
  by (simp add: sample_grid_def)

text \<open>
  Claim C6. In the recompute with nothing maximized, the cell is
  \<open>cellW = canvasW div cols\<close> by \<open>cellH = canvasH div rows\<close>; the \<open>i\<close>-th view in
  registration order sits at column \<open>i mod cols\<close> and row \<open>i div cols\<close>, with bounds
  \<open>(col * cellW, row * cellH, cellW, cellH)\<close>; a view of index \<open>cols * rows\<close> or more
  gets the empty rectangle and is not visible, and stays tracked: the recompute keeps every
  id, in the same order.
\<close>

theorem applyLayout_grid_cells:
  assumes "\<not> truthy_id (maximizedId g)" and "i < length (views g)"
  shows "map fst (views (applyLayout g)) = map fst (views g) \<and>
    (i < cols g * rows g \<longrightarrow>
       view_bounds (snd (views (applyLayout g) ! i)) =
         \<lparr>x_pos = (i mod cols g) * (fst (contentSize g) div cols g),
          y_pos = (i div cols g) * (snd (contentSize g) div rows g),
          width = fst (contentSize g) div cols g,
          height = snd (contentSize g) div rows g\<rparr>) \<and>
    (i \<ge> cols g * rows g \<longrightarrow>
       view_bounds (snd (views (applyLayout g) ! i)) = zero_bounds \<and>
       \<not> visible (snd (views (applyLayout g) ! i)) \<and>
       fst (views (applyLayout g) ! i) = fst (views g ! i))"
  using assms
  by (simp add: applyLayout_def Let_def layout_cells_keys layout_cells_nth setBounds_def
      visible_def zero_bounds_def)

text \<open>
  Five views in a 2 x 2 grid of a 1000 x 600 window: the second view gets the top right
  cell, the fifth is collapsed and still tracked.
\<close>

theorem applyLayout_grid_cells_witness:
  "\<not> truthy_id (maximizedId (setGrid 2 2 (sample_grid 5))) \<and>
   (1::nat) < length (views (setGrid 2 2 (sample_grid 5))) \<and>
   (4::nat) < length (views (setGrid 2 2 (sample_grid 5))) \<and>
   map fst (views (applyLayout (setGrid 2 2 (sample_grid 5)))) =
     [''u'', ''uu'', ''uuu'', ''uuuu'', ''uuuuu''] \<and>
   view_bounds (snd (views (applyLayout (setGrid 2 2 (sample_grid 5))) ! 1)) =
     \<lparr>x_pos = 500, y_pos = 0, width = 500, height = 300\<rparr> \<and>
   view_bounds (snd (views (applyLayout (setGrid 2 2 (sample_grid 5))) ! 4)) = zero_bounds \<and>
   \<not> visible (snd (views (applyLayout (setGrid 2 2 (sample_grid 5))) ! 4))"
  using applyLayout_grid_cells [of "setGrid 2 2 (sample_grid 5)" 1]
    applyLayout_grid_cells [of "setGrid 2 2 (sample_grid 5)" 4]
  by (simp add: sample_grid_def setGrid_def applyLayout_fields applyLayout_length new_grid_def
      applyLayout_def layout_cells_keys comp_def upt_rec)


lemma restoreGrid_maximize_views:
  "views (restoreGrid (maximize pid g)) = views (restoreGrid g)"
  by (simp add: restoreGrid_def maximize_def applyLayout_def Let_def layout_cells_absorb
      layout_cells_idem)

lemma restoreGrid_views:
  "\<not> truthy_id (maximizedId g) \<Longrightarrow> views (restoreGrid g) = views (applyLayout g)"
  by (simp add: restoreGrid_def applyLayout_def Let_def)

lemma maximize_dims: "cols (maximize pid g) = cols g \<and> rows (maximize pid g) = rows g"
  by (simp add: maximize_def applyLayout_fields)

text \<open>
  Claim C5, amended. When no view is maximized and the views carry the bounds of the
  recompute (the layout is current, as after \<^verbatim>\<open>setGrid\<close>, \<^verbatim>\<open>autoGrid\<close>,
  \<^verbatim>\<open>restoreGrid\<close> or a resize), \<^verbatim>\<open>maximize(id)\<close> on a tracked id followed by
  \<^verbatim>\<open>restoreGrid()\<close> gives every view the bounds it had before: \<^verbatim>\<open>maximize\<close>
  keeps \<open>(cols, rows)\<close> and \<^verbatim>\<open>restoreGrid\<close> recomputes with them.
\<close>

theorem maximize_restoreGrid_roundtrip:
  assumes "map_has (views g) pid"
    and "\<not> truthy_id (maximizedId g)"
    and "surface_bounds (applyLayout g) = surface_bounds g"
  shows "surface_bounds (restoreGrid (maximize pid g)) = surface_bounds g \<and>
    cols (maximize pid g) = cols g \<and> rows (maximize pid g) = rows g"
proof -
  have "views (restoreGrid (maximize pid g)) = views (applyLayout g)"
    using assms(2) by (simp add: restoreGrid_maximize_views restoreGrid_views)
  then have "surface_bounds (restoreGrid (maximize pid g)) = surface_bounds (applyLayout g)"
    by (simp add: surface_bounds_def)
  with assms(3) show ?thesis by (simp add: maximize_dims)
qed

text \<open>
  Two views side by side: maximizing the second and restoring gives the two half-window
  rectangles back.
\<close>

theorem maximize_restoreGrid_roundtrip_witness:
  "map_has (views (autoGrid (sample_grid 2))) ''uu'' \<and>
   \<not> truthy_id (maximizedId (autoGrid (sample_grid 2))) \<and>
   surface_bounds (applyLayout (autoGrid (sample_grid 2))) = surface_bounds (autoGrid (sample_grid 2)) \<and>
   surface_bounds (restoreGrid (maximize ''uu'' (autoGrid (sample_grid 2)))) =
     [(''u'', \<lparr>x_pos = 0, y_pos = 0, width = 500, height = 600\<rparr>),
      (''uu'', \<lparr>x_pos = 500, y_pos = 0, width = 500, height = 600\<rparr>)]"
proof -
  have v: "views (autoGrid (sample_grid 2)) =
     [(''u'', \<lparr>view_ref = 0, view_bounds = \<lparr>x_pos = 0, y_pos = 0, width = 500, height = 600\<rparr>,
               autoResize = (False, False)\<rparr>),
      (''uu'', \<lparr>view_ref = 1, view_bounds = \<lparr>x_pos = 500, y_pos = 0, width = 500, height = 600\<rparr>,
               autoResize = (False, False)\<rparr>)]"
    by (simp add: autoGrid_def sample_grid_def new_grid_def autoGrid_dims_def applyLayout_def
        new_view_def setBounds_def upt_rec)
  have a: "map_has (views (autoGrid (sample_grid 2))) ''uu''" by (simp add: v)
  have b: "\<not> truthy_id (maximizedId (autoGrid (sample_grid 2)))"
    by (simp add: autoGrid_def Let_def applyLayout_fields)
  have c: "surface_bounds (applyLayout (autoGrid (sample_grid 2))) =
      surface_bounds (autoGrid (sample_grid 2))"
    by (simp add: autoGrid_def Let_def applyLayout_idem)
  from maximize_restoreGrid_roundtrip [OF a b c] a b c show ?thesis
    by (simp add: surface_bounds_def v)
qed

text \<open>
  Claim C5 as stated covers every layout state, also one where a view is maximized already.
  There it fails: with \<open>u\<close> maximized (full window, \<open>uu\<close> collapsed),
  \<^verbatim>\<open>maximize('uu')\<close> then \<^verbatim>\<open>restoreGrid()\<close> yields the 2 x 1 grid, not the bounds
  before the call.
\<close>

theorem maximize_restoreGrid_counterexample:
  "map_has (views maximized_sample) ''uu'' \<and>
   surface_bounds maximized_sample =
     [(''u'', \<lparr>x_pos = 0, y_pos = 0, width = 1000, height = 600\<rparr>),
      (''uu'', \<lparr>x_pos = 0, y_pos = 0, width = 0, height = 0\<rparr>)] \<and>
   surface_bounds (restoreGrid (maximize ''uu'' maximized_sample)) =
     [(''u'', \<lparr>x_pos = 0, y_pos = 0, width = 500, height = 600\<rparr>),
      (''uu'', \<lparr>x_pos = 500, y_pos = 0, width = 500, height = 600\<rparr>)] \<and>
   surface_bounds (restoreGrid (maximize ''uu'' maximized_sample)) \<noteq> surface_bounds maximized_sample"
  by (simp add: maximized_sample_def surface_bounds_def restoreGrid_def maximize_def autoGrid_def
      sample_grid_def new_grid_def autoGrid_dims_def applyLayout_def new_view_def setBounds_def
      layout_maximized_def zero_bounds_def upt_rec)

section \<open>Properties of the session registry\<close>

lemma map_get_delete: "map_get (map_delete m k) k = None"
  by (induction m) auto

lemma map_get_delete_other: "k' \<noteq> k \<Longrightarrow> map_get (map_delete m k) k' = map_get m k'"
  by (induction m) auto

lemma pm_destroy_removes: "map_get (fst (pm_destroy fails pid reg)) pid = None"
  by (simp add: pm_destroy_def map_get_delete split: option.splits)

text \<open>
  Claim C10, amended. \<^verbatim>\<open>destroy(id)\<close> never raises and always removes the registry entry
  of \<open>id\<close>, whichever sub-step failed, and touches no other entry. The three sub-steps
  run in order inside one best-effort block: clearing the storage is always attempted,
  the cache is cleared exactly when clearing the storage did not fail, and the auth cache
  exactly when neither of the two before it failed.
\<close>

theorem pm_destroy_best_effort:
  "map_get (fst (pm_destroy fails pid reg)) pid = None \<and>
   (\<forall>other. other \<noteq> pid \<longrightarrow> map_get (fst (pm_destroy fails pid reg)) other = map_get reg other) \<and>
   (\<forall>p. map_get reg pid = Some p \<longrightarrow>
      (partition_key p, ClearStorageData) \<in> set (snd (pm_destroy fails pid reg)) \<and>
      ((partition_key p, ClearCache) \<in> set (snd (pm_destroy fails pid reg))
         \<longleftrightarrow> \<not> fails (partition_key p) ClearStorageData) \<and>
      ((partition_key p, ClearAuthCache) \<in> set (snd (pm_destroy fails pid reg))
         \<longleftrightarrow> \<not> fails (partition_key p) ClearStorageData \<and> \<not> fails (partition_key p) ClearCache))"
  by (auto simp: pm_destroy_def map_get_delete map_get_delete_other split: option.splits)

text \<open>
  The registry with the one profile \<open>a\<close>: with no failure all three sub-steps run, and the
  entry is removed also when clearing the storage fails.
\<close>

theorem pm_destroy_best_effort_witness:
  "map_get registry_a ''a'' = Some \<lparr>partition_key = ''persist:a'', proxy = None, userAgent = None\<rparr> \<and>
   map_get (fst (pm_destroy never_fails ''a'' registry_a)) ''a'' = None \<and>
   map_get (fst (pm_destroy storage_fails ''a'' registry_a)) ''a'' = None \<and>
   (''persist:a'', ClearStorageData) \<in> set (snd (pm_destroy never_fails ''a'' registry_a)) \<and>
   (''persist:a'', ClearCache) \<in> set (snd (pm_destroy never_fails ''a'' registry_a)) \<and>
   (''persist:a'', ClearAuthCache) \<in> set (snd (pm_destroy never_fails ''a'' registry_a))"
proof -
  have r: "map_get registry_a ''a'' =
      Some \<lparr>partition_key = ''persist:a'', proxy = None, userAgent = None\<rparr>"
    by (simp add: registry_a_def pm_create_def or_null_def Let_def)
  from pm_destroy_best_effort [of never_fails "''a''" registry_a]
    pm_destroy_best_effort [of storage_fails "''a''" registry_a] r
  show ?thesis
    by (simp add: never_fails_def)
qed

text \<open>
  Claim C10 as stated fails: the three calls share one \<^verbatim>\<open>try\<close> block, so when clearing
  the storage fails, the cache and the auth cache are never cleared.
\<close>

theorem pm_destroy_counterexample:
  "map_get registry_a ''a'' \<noteq> None \<and>
   snd (pm_destroy storage_fails ''a'' registry_a) = [(''persist:a'', ClearStorageData)] \<and>
   (''persist:a'', ClearCache) \<notin> set (snd (pm_destroy storage_fails ''a'' registry_a)) \<and>
   (''persist:a'', ClearAuthCache) \<notin> set (snd (pm_destroy storage_fails ''a'' registry_a))"
  by (simp add: registry_a_def pm_create_def or_null_def pm_destroy_def storage_fails_def Let_def)

section \<open>Properties of polling\<close>

lemma started_at_mono: "started_at fn interval k \<le> started_at fn interval (Suc k)"
  by simp










section \<open>Properties of the event-race waits\<close>

lemma removeListener_last: "removeListener l (ls @ [l]) = ls"
  by (simp add: removeListener_def)

lemma removeListener_before_last: "l \<noteq> l' \<Longrightarrow> removeListener l (ls @ [l, l']) = ls @ [l']"
  by (simp add: removeListener_def)

lemma removeListener_append_other:
  "l \<noteq> l' \<Longrightarrow> removeListener l (ls @ [l']) = removeListener l ls @ [l']"
  by (simp add: removeListener_def)

text \<open>
  The three paths of \<^verbatim>\<open>waitForNavigation\<close> that go through an event remove both
  subscriptions before they settle: the listeners are those from before the call.
\<close>

lemma waitForNavigation_event_paths:
  "nav_listeners (nav_step DidFinishLoad (waitForNavigation f g ls)) = ls"
  "nav_settled (nav_step DidFinishLoad (waitForNavigation f g ls)) = Some Resolved"
  "nav_listeners (nav_step (DidFailLoad code desc) (waitForNavigation f g ls)) = ls"
  "nav_settled (nav_step (DidFailLoad (- 3) desc) (waitForNavigation f g ls)) = Some Resolved"
  "code \<noteq> - 3 \<Longrightarrow>
     nav_settled (nav_step (DidFailLoad code desc) (waitForNavigation f g ls)) =
       Some (Rejected code desc)"
  by (simp_all add: waitForNavigation_def emitter_on_def onFinish_def onFail_def
      nav_remove_both_def removeListener_before_last removeListener_last)

lemma nav_done_stays:
  "nav_done w \<Longrightarrow>
     nav_done (nav_step ev w) \<and> nav_listeners (nav_step ev w) = nav_listeners w \<and>
     nav_settled (nav_step ev w) = nav_settled w"
  by (cases ev) (simp_all add: onFinish_def onFail_def nav_onTimeout_def)

lemma nav_done_run:
  "nav_done w \<Longrightarrow>
     nav_done (nav_run evs w) \<and> nav_listeners (nav_run evs w) = nav_listeners w \<and>
     nav_settled (nav_run evs w) = nav_settled w"
proof (induction evs arbitrary: w)
  case Nil
  then show ?case by (simp add: nav_run_def)
next
  case (Cons ev evs)
  from Cons.prems have d: "nav_done (nav_step ev w)"
    "nav_listeners (nav_step ev w) = nav_listeners w"
    "nav_settled (nav_step ev w) = nav_settled w"
    by (simp_all add: nav_done_stays)
  from Cons.IH [OF d(1)] d show ?case by (simp add: nav_run_def)
qed

text \<open>
  Claim C8 (a defect of the code). On the timeout path \<^verbatim>\<open>waitForNavigation\<close> settles its
  promise and removes nothing: after the timer has fired, the promise is resolved and the
  two subscriptions of the call are still on the content context, and no later event
  removes them.
\<close>

theorem waitForNavigation_timeout_keeps_listeners:
  "nav_settled (nav_run evs (nav_step NavTimeout (waitForNavigation f g ls))) = Some Resolved \<and>
   nav_listeners (nav_run evs (nav_step NavTimeout (waitForNavigation f g ls))) =
     ls @ [(''did-finish-load'', f), (''did-fail-load'', g)]"
proof -
  let ?w = "nav_step NavTimeout (waitForNavigation f g ls)"
  have w: "nav_done ?w" "nav_settled ?w = Some Resolved"
    "nav_listeners ?w = ls @ [(''did-finish-load'', f), (''did-fail-load'', g)]"
    by (simp_all add: waitForNavigation_def nav_onTimeout_def emitter_on_def)
  from nav_done_run [OF w(1), of evs] w show ?thesis by simp
qed

lemma removeListener_mid:
  "l \<notin> set rest \<Longrightarrow> removeListener l (ls @ l # rest) = ls @ rest"
  by (simp add: removeListener_def remove1_append)

lemma cleanup_restores:
  assumes "idle_listeners w = ls @ [(''did-start-loading'', idle_onStart w),
             (''did-stop-loading'', idle_onFinish w), (''did-finish-load'', idle_onFinish w),
             (''did-fail-load'', idle_onFinish w)]"
  shows "idle_listeners (cleanup w) = ls"
proof -
  have "removeListener (''did-start-loading'', idle_onStart w) (idle_listeners w) =
      ls @ [(''did-stop-loading'', idle_onFinish w), (''did-finish-load'', idle_onFinish w),
             (''did-fail-load'', idle_onFinish w)]"
    unfolding assms by (rule removeListener_mid) simp
  moreover have "removeListener (''did-stop-loading'', idle_onFinish w)
      (ls @ [(''did-stop-loading'', idle_onFinish w), (''did-finish-load'', idle_onFinish w),
             (''did-fail-load'', idle_onFinish w)]) =
      ls @ [(''did-finish-load'', idle_onFinish w), (''did-fail-load'', idle_onFinish w)]"
    by (rule removeListener_mid) simp
  moreover have "removeListener (''did-finish-load'', idle_onFinish w)
      (ls @ [(''did-finish-load'', idle_onFinish w), (''did-fail-load'', idle_onFinish w)]) =
      ls @ [(''did-fail-load'', idle_onFinish w)]"
    by (rule removeListener_mid) simp
  ultimately show ?thesis
    by (simp add: cleanup_def removeListener_last)
qed

lemma idle_inv_start: "idle_inv ls (waitForNetworkIdle s f ls)"
  by (simp add: idle_inv_def waitForNetworkIdle_def checkIdle_def emitter_on_def)

lemma idle_inv_step:
  assumes "idle_inv ls w"
  shows "idle_inv ls (idle_step ev w)"
proof (cases "idle_done w")
  case True
  with assms show ?thesis
    by (cases ev)
       (simp_all add: idle_inv_def idle_onStartLoading_def idle_onFinished_def checkIdle_def)
next
  case False
  with assms have l: "idle_listeners w = ls @ [(''did-start-loading'', idle_onStart w),
             (''did-stop-loading'', idle_onFinish w), (''did-finish-load'', idle_onFinish w),
             (''did-fail-load'', idle_onFinish w)]" and s: "idle_settled w = None"
    by (simp_all add: idle_inv_def)
  have c: "idle_listeners (cleanup (w\<lparr>idle_timer := t, idle_timeoutId := u, idle_done := d\<rparr>)) = ls"
    for t u d
    by (rule cleanup_restores) (simp add: l)
  show ?thesis
  proof (cases ev)
    case QuietTimer
    with False l s c [of False "idle_timeoutId w" True] show ?thesis
      by (auto simp: idle_inv_def idle_onQuiet_def cleanup_def)
  next
    case OuterTimeout
    with False l s c [of "idle_timer w" False False] show ?thesis
      by (auto simp: idle_inv_def idle_onTimeout_def Let_def cleanup_def)
  qed (use False l s in \<open>simp_all add: idle_inv_def idle_onStartLoading_def idle_onFinished_def
      checkIdle_def\<close>)
qed

text \<open>
  \<^verbatim>\<open>waitForNetworkIdle\<close> does on both of its paths what the timeout path of
  \<^verbatim>\<open>waitForNavigation\<close> misses: whatever events and timers follow the call, once the
  promise has settled (quiet period or outer timeout) the four subscriptions are gone.
\<close>


lemma waitForNetworkIdle_removes_listeners:
  "idle_inv ls (idle_run evs (waitForNetworkIdle s f ls))"
proof -
  have "idle_inv ls w \<Longrightarrow> idle_inv ls (fold idle_step evs w)" for w
    by (induction evs arbitrary: w) (simp_all add: idle_inv_step)
  then show ?thesis by (simp add: idle_run_def idle_inv_start)
qed

lemma waitForNetworkIdle_timeout_path:
  "idle_settled (idle_run [DidStartLoading, OuterTimeout] (waitForNetworkIdle s f ls)) = Some Resolved \<and>
   idle_listeners (idle_run [DidStartLoading, OuterTimeout] (waitForNetworkIdle s f ls)) = ls"
  using waitForNetworkIdle_removes_listeners [of ls "[DidStartLoading, OuterTimeout]" s f]
  by (simp add: idle_inv_def idle_run_def waitForNetworkIdle_def checkIdle_def emitter_on_def
      idle_onStartLoading_def idle_onTimeout_def Let_def cleanup_def split: if_splits)

section \<open>Properties of the feature handlers\<close>

lemma cdpSend_sent:
  "sent (snd (cdpSend env cmd p)) = sent p @ (if attached p \<or> attach_ok env then [cmd] else [])"
  by (simp add: cdpSend_def safeAttachDebugger_def Let_def)

lemma cdpSend_ok:
  "fst (cdpSend env cmd p) = ((attached p \<or> attach_ok env) \<and> send_ok env cmd)"
  by (simp add: cdpSend_def safeAttachDebugger_def Let_def)

lemma cdpSend_attached:
  "attached (snd (cdpSend env cmd p)) = (attached p \<or> attach_ok env)"
  by (simp add: cdpSend_def safeAttachDebugger_def Let_def)

text \<open>
  A result whose action is neither \<^verbatim>\<open>continue\<close> nor \<^verbatim>\<open>block\<close> (the \<^verbatim>\<open>modify\<close> of the
  function's own comment, for one) sends no command: the request stays paused.
\<close>

lemma on_intercept_modify_sends_nothing:
  "sent (on_intercept ok_env sample_request modify_page) = sent modify_page"
  by (simp add: on_intercept_def modify_page_def interceptRequests_def Let_def
      network_enable_def cdpSend_def safeAttachDebugger_def install_onRequestPaused_def
      ok_env_def sample_page_def new_page_def)




section \<open>Properties of the control channel\<close>

lemma filter_removeListener: "filter P (removeListener l ls) = removeListener l (filter P ls)"
  by (simp add: removeListener_def rev_filter [symmetric] filter_remove1)

lemma removeListener_notin: "l \<notin> set ls \<Longrightarrow> removeListener l ls = ls"
  by (simp add: removeListener_def remove1_idem)

lemma removeListener_single: "removeListener l [l] = []"
  by (simp add: removeListener_def)

lemma set_removeListener: "set (removeListener l ls) \<subseteq> set ls"
  by (simp add: removeListener_def) (metis set_remove1_subset set_rev)


lemma same_channel_trans: "same_channel r q \<Longrightarrow> same_channel q p \<Longrightarrow> same_channel r p"
  by (simp add: same_channel_def)

lemma chan_inv_cong: "same_channel q p \<Longrightarrow> chan_inv q = chan_inv p"
  by (simp add: same_channel_def chan_inv_def registrations_def)

lemma same_channel_cdpSend: "same_channel (snd (cdpSend env c p)) p"
  by (simp add: same_channel_def cdpSend_def safeAttachDebugger_def Let_def)

lemma same_channel_safeAttach: "same_channel (snd (safeAttachDebugger env p)) p"
  by (simp add: same_channel_def safeAttachDebugger_def)

lemma same_channel_network_enable: "same_channel (snd (network_enable env p)) p"
  by (simp add: same_channel_def network_enable_def cdpSend_def safeAttachDebugger_def Let_def)

lemma same_channel_network_disable: "same_channel (network_disable env p) p"
  by (simp add: same_channel_def network_disable_def cdpSend_def safeAttachDebugger_def Let_def)

lemma removed_same:
  "filter P ls = option_list old \<Longrightarrow> filter P (removed old ls) = []"
  by (cases old) (simp_all add: removed_def filter_removeListener removeListener_single)

lemma removed_other:
  assumes "filter P ls = option_list old" and "\<And>x. Q x \<Longrightarrow> \<not> P x"
  shows "filter Q (removed old ls) = filter Q ls"
proof (cases old)
  case None
  then show ?thesis by (simp add: removed_def)
next
  case (Some x)
  with assms(1) have "x \<in> set (filter P ls)" by simp
  then have "P x" by simp
  with assms(2) have "\<not> Q x" by blast
  then have "x \<notin> set (filter Q ls)" by simp
  then have "removeListener x (filter Q ls) = filter Q ls" by (rule removeListener_notin)
  with Some show ?thesis by (simp add: removed_def filter_removeListener)
qed

lemma removed_bound:
  "list_all (\<lambda>x. fst x < n) ls \<Longrightarrow> list_all (\<lambda>x. fst x < n) (removed old ls)"
  by (cases old) (auto simp: removed_def list_all_iff dest: set_removeListener [THEN subsetD])

lemma removed_old_gone:
  assumes "filter P ls = option_list (Some x)"
  shows "x \<notin> set (removed (Some x) ls)"
proof
  assume "x \<in> set (removed (Some x) ls)"
  moreover from assms have "x \<in> set (filter P ls)" by simp
  then have "P x" by simp
  ultimately have "x \<in> set (filter P (removed (Some x) ls))" by simp
  with removed_same [OF assms] show False by simp
qed

lemma filter_removed:
  assumes "filter (\<lambda>l. listens_to (snd l) = m) ls = option_list old"
  shows "filter (\<lambda>l. listens_to (snd l) = m') (removed old ls) =
    (if m' = m then [] else filter (\<lambda>l. listens_to (snd l) = m') ls)"
proof (cases "m' = m")
  case True
  with assms show ?thesis by (simp add: removed_same)
next
  case False
  have "filter (\<lambda>l. listens_to (snd l) = m') (removed old ls) =
      filter (\<lambda>l. listens_to (snd l) = m') ls"
    using assms by (rule removed_other) (use False in simp)
  with False show ?thesis by simp
qed

lemma removed_bound_Suc:
  "list_all (\<lambda>x. fst x < n) ls \<Longrightarrow> list_all (\<lambda>x. fst x < Suc n) (removed old ls)"
  using removed_bound [of n ls old] by (auto simp: list_all_iff less_Suc_eq)

text \<open>
  The three slots of the channel: swapping the listener of a slot for a new closure, and
  dropping the listener of a slot, keep the link between listeners and fields.
\<close>

lemma chan_inv_swap_fetch:
  assumes "chan_inv p" and "listens_to h = ''Fetch.requestPaused''"
    and "dbg_listeners q = emitter_on (nextClosure p, h) (removed (onRequestPaused p) (dbg_listeners p))"
    and "onRequestPaused q = Some (nextClosure p, h)"
    and "fileChooserListener q = fileChooserListener p" and "onDialog q = onDialog p"
    and "dlg_enabled q = dlg_enabled p" and "nextClosure q = Suc (nextClosure p)"
  shows "chan_inv q"
proof -
  from assms(1)
  have f: "filter (\<lambda>l. listens_to (snd l) = ''Fetch.requestPaused'') (dbg_listeners p) =
      option_list (onRequestPaused p)"
    and b: "list_all (\<lambda>x. fst x < nextClosure p) (dbg_listeners p)"
    by (simp_all add: chan_inv_def registrations_def)
  from assms filter_removed [OF f] removed_bound_Suc [OF b] show ?thesis
    by (simp add: chan_inv_def registrations_def emitter_on_def)
qed

lemma chan_inv_swap_chooser:
  assumes "chan_inv p" and "listens_to h = ''Page.fileChooserOpened''"
    and "dbg_listeners q = emitter_on (nextClosure p, h) (removed (fileChooserListener p) (dbg_listeners p))"
    and "fileChooserListener q = Some (nextClosure p, h)"
    and "onRequestPaused q = onRequestPaused p" and "onDialog q = onDialog p"
    and "dlg_enabled q = dlg_enabled p" and "nextClosure q = Suc (nextClosure p)"
  shows "chan_inv q"
proof -
  from assms(1)
  have f: "filter (\<lambda>l. listens_to (snd l) = ''Page.fileChooserOpened'') (dbg_listeners p) =
      option_list (fileChooserListener p)"
    and b: "list_all (\<lambda>x. fst x < nextClosure p) (dbg_listeners p)"
    by (simp_all add: chan_inv_def registrations_def)
  from assms filter_removed [OF f] removed_bound_Suc [OF b] show ?thesis
    by (simp add: chan_inv_def registrations_def emitter_on_def)
qed

lemma chan_inv_drop_fetch:
  assumes "chan_inv p"
    and "dbg_listeners q = removed (onRequestPaused p) (dbg_listeners p)"
    and "onRequestPaused q = None"
    and "fileChooserListener q = fileChooserListener p" and "onDialog q = onDialog p"
    and "dlg_enabled q = dlg_enabled p" and "nextClosure q = nextClosure p"
  shows "chan_inv q"
proof -
  from assms(1)
  have f: "filter (\<lambda>l. listens_to (snd l) = ''Fetch.requestPaused'') (dbg_listeners p) =
      option_list (onRequestPaused p)"
    and b: "list_all (\<lambda>x. fst x < nextClosure p) (dbg_listeners p)"
    by (simp_all add: chan_inv_def registrations_def)
  from assms filter_removed [OF f] removed_bound [OF b] show ?thesis
    by (simp add: chan_inv_def registrations_def)
qed

lemma chan_inv_drop_chooser:
  assumes "chan_inv p"
    and "dbg_listeners q = removed (fileChooserListener p) (dbg_listeners p)"
    and "fileChooserListener q = None"
    and "onRequestPaused q = onRequestPaused p" and "onDialog q = onDialog p"
    and "dlg_enabled q = dlg_enabled p" and "nextClosure q = nextClosure p"
  shows "chan_inv q"
proof -
  from assms(1)
  have f: "filter (\<lambda>l. listens_to (snd l) = ''Page.fileChooserOpened'') (dbg_listeners p) =
      option_list (fileChooserListener p)"
    and b: "list_all (\<lambda>x. fst x < nextClosure p) (dbg_listeners p)"
    by (simp_all add: chan_inv_def registrations_def)
  from assms filter_removed [OF f] removed_bound [OF b] show ?thesis
    by (simp add: chan_inv_def registrations_def)
qed

lemma chan_inv_drop_dialog:
  assumes "chan_inv p"
    and "dbg_listeners q = removed (onDialog p) (dbg_listeners p)"
    and "onDialog q = None"
    and "onRequestPaused q = onRequestPaused p" and "fileChooserListener q = fileChooserListener p"
    and "nextClosure q = nextClosure p"
  shows "chan_inv q"
proof -
  from assms(1)
  have f: "filter (\<lambda>l. listens_to (snd l) = ''Page.javascriptDialogOpening'') (dbg_listeners p) =
      option_list (onDialog p)"
    and b: "list_all (\<lambda>x. fst x < nextClosure p) (dbg_listeners p)"
    by (simp_all add: chan_inv_def registrations_def)
  from assms filter_removed [OF f] removed_bound [OF b] show ?thesis
    by (simp add: chan_inv_def registrations_def)
qed

lemma chan_inv_add_dialog:
  assumes "chan_inv p" and "\<not> dlg_enabled p"
    and "dbg_listeners q = emitter_on (nextClosure p, HandleDialog) (dbg_listeners p)"
    and "onDialog q = Some (nextClosure p, HandleDialog)" and "dlg_enabled q"
    and "onRequestPaused q = onRequestPaused p" and "fileChooserListener q = fileChooserListener p"
    and "nextClosure q = Suc (nextClosure p)"
  shows "chan_inv q"
  using assms
  by (auto simp: chan_inv_def registrations_def emitter_on_def list_all_iff less_Suc_eq)


lemma chan_inv_install:
  assumes "chan_inv p" and "listens_to h = ''Fetch.requestPaused''"
  shows "chan_inv (install_onRequestPaused h p)"
  using assms
  by (rule chan_inv_swap_fetch) (simp_all add: install_onRequestPaused_def removed_def Let_def)

lemma chan_inv_blockResourceTypes:
  assumes "chan_inv p"
  shows "chan_inv (snd (blockResourceTypes env typesArray p))"
proof -
  let ?p1 = "snd (network_enable env p)"
  let ?p2 = "snd (cdpSend env (NetworkSetBlockedURLs []) ?p1)"
  let ?p3 = "snd (cdpSend env (FetchEnableTypes typesArray) ?p2)"
  have 1: "chan_inv ?p1"
    using assms by (simp add: chan_inv_cong [OF same_channel_network_enable])
  then have 2: "chan_inv ?p2" by (simp add: chan_inv_cong [OF same_channel_cdpSend])
  then have 3: "chan_inv ?p3" by (simp add: chan_inv_cong [OF same_channel_cdpSend])
  then have "chan_inv (install_onRequestPaused (BlockByType typesArray) ?p3)"
    by (rule chan_inv_install) simp
  with 1 2 3 show ?thesis by (simp add: blockResourceTypes_def Let_def)
qed

lemma chan_inv_interceptRequests:
  assumes "chan_inv p"
  shows "chan_inv (snd (interceptRequests env h p))"
proof -
  let ?p1 = "snd (network_enable env p)"
  let ?p2 = "?p1\<lparr>interceptHandler := h\<rparr>"
  let ?p3 = "snd (cdpSend env FetchEnableAll ?p2)"
  have 1: "chan_inv ?p1"
    using assms by (simp add: chan_inv_cong [OF same_channel_network_enable])
  have "same_channel ?p2 ?p1" by (simp add: same_channel_def)
  with 1 have 2: "chan_inv ?p2" by (simp add: chan_inv_cong)
  then have 3: "chan_inv ?p3" by (simp add: chan_inv_cong [OF same_channel_cdpSend])
  then have "chan_inv (install_onRequestPaused InterceptWithHandler ?p3)"
    by (rule chan_inv_install) simp
  with 1 2 3 show ?thesis by (simp add: interceptRequests_def Let_def)
qed

lemma chan_inv_network_destroy:
  assumes "chan_inv p"
  shows "chan_inv (network_destroy p)"
  using assms
  by (rule chan_inv_drop_fetch)
     (simp_all add: network_destroy_def removed_def Let_def split: option.splits)

lemma chan_inv_stopInterceptFileChooser:
  assumes "chan_inv p"
  shows "chan_inv (stopInterceptFileChooser env p)"
proof -
  let ?p1 = "(case fileChooserListener p of
                  Some l \<Rightarrow> p\<lparr>dbg_listeners := removeListener l (dbg_listeners p),
                               fileChooserListener := None\<rparr>
                | None \<Rightarrow> p)"
  from assms have "chan_inv ?p1"
    by (rule chan_inv_drop_chooser) (simp_all add: removed_def split: option.splits)
  then show ?thesis
    by (simp add: stopInterceptFileChooser_def Let_def chan_inv_cong [OF same_channel_cdpSend])
qed

lemma chan_inv_interceptFileChooser:
  assumes "chan_inv p"
  shows "chan_inv (snd (interceptFileChooser env files persistent p))"
proof -
  let ?p1 = "snd (safeAttachDebugger env p)"
  let ?p2 = "snd (cdpSend env PageEnable ?p1)"
  let ?p3 = "snd (cdpSend env (PageSetInterceptFileChooserDialog True) ?p2)"
  have 1: "chan_inv ?p1"
    using assms by (simp add: chan_inv_cong [OF same_channel_safeAttach])
  then have 2: "chan_inv ?p2" by (simp add: chan_inv_cong [OF same_channel_cdpSend])
  then have 3: "chan_inv ?p3" by (simp add: chan_inv_cong [OF same_channel_cdpSend])
  then have "chan_inv (install_fileChooserListener files persistent ?p3)"
    by (rule chan_inv_swap_chooser [where h = "ChooseFiles files persistent"])
       (simp_all add: install_fileChooserListener_def removed_def Let_def)
  with 1 2 3 show ?thesis by (simp add: interceptFileChooser_def Let_def)
qed

lemma chan_inv_dialogs_enable:
  assumes "chan_inv p"
  shows "chan_inv (snd (dialogs_enable env options p))"
proof (cases "dlg_enabled p")
  case True
  with assms show ?thesis by (simp add: dialogs_enable_def)
next
  case False
  let ?p1 = "snd (safeAttachDebugger env p)"
  let ?p2 = "snd (cdpSend env PageEnable ?p1)"
  have s: "same_channel ?p2 p"
    by (rule same_channel_trans [OF same_channel_cdpSend same_channel_safeAttach])
  with assms have 2: "chan_inv ?p2" by (simp add: chan_inv_cong)
  from s False have ne: "\<not> dlg_enabled ?p2" by (simp add: same_channel_def)
  have "chan_inv (install_onDialog options ?p2)"
    using 2 ne by (rule chan_inv_add_dialog) (simp_all add: install_onDialog_def Let_def)
  with 2 False show ?thesis by (simp add: dialogs_enable_def Let_def)
qed

lemma chan_inv_dialogs_disable:
  assumes "chan_inv p"
  shows "chan_inv (dialogs_disable p)"
proof (cases "dlg_enabled p")
  case False
  with assms show ?thesis by (simp add: dialogs_disable_def)
next
  case True
  from assms have "chan_inv (dialogs_disable p)"
    by (rule chan_inv_drop_dialog)
       (simp_all add: dialogs_disable_def True removed_def Let_def split: option.splits)
  then show ?thesis .
qed

lemma chan_inv_dialogs_destroy: "chan_inv p \<Longrightarrow> chan_inv (dialogs_destroy p)"
proof -
  assume "chan_inv p"
  then have "chan_inv (dialogs_disable p)" by (rule chan_inv_dialogs_disable)
  moreover have "same_channel (dialogs_destroy p) (dialogs_disable p)"
    by (simp add: same_channel_def dialogs_destroy_def)
  ultimately show ?thesis by (simp add: chan_inv_cong)
qed

lemma chan_inv_run_listener:
  assumes "chan_inv p"
  shows "chan_inv (run_listener env msg l p)"
proof -
  have block: "chan_inv (on_block env t r p)" for t r
    using assms by (simp add: on_block_def chan_inv_cong [OF same_channel_cdpSend])
  have cont: "chan_inv (continue_unmodified env r q)" if "chan_inv q" for r q
    using that by (simp add: continue_unmodified_def chan_inv_cong [OF same_channel_cdpSend])
  have sof: "chan_inv (send_or_fallback env r c p)" for r c
    using assms cont
    by (simp add: send_or_fallback_def Let_def chan_inv_cong [OF same_channel_cdpSend])
  have icpt: "chan_inv (on_intercept env r p)" for r
    using assms cont sof
    by (simp add: on_intercept_def split: option.splits handler_outcome.splits)
  have dlg: "chan_inv (on_dialog env d p)" for d
  proof -
    have "same_channel (p\<lparr>dialogHistory := dialogHistory p @ [d]\<rparr>) p"
      by (simp add: same_channel_def)
    with assms show ?thesis
      by (simp add: on_dialog_def Let_def chan_inv_cong [OF same_channel_cdpSend] chan_inv_cong)
  qed
  have fc: "chan_inv (on_fileChooser env files persistent n p)" for files persistent n
    using assms
    by (simp add: on_fileChooser_def Let_def chan_inv_stopInterceptFileChooser
        chan_inv_cong [OF same_channel_cdpSend])
  obtain i h where l: "l = (i, h)" by (cases l)
  show ?thesis
    using assms block icpt dlg fc unfolding l
    by (cases msg; cases h) simp_all
qed

lemma chan_inv_deliver: "chan_inv p \<Longrightarrow> chan_inv (deliver env msg p)"
proof -
  have "chan_inv q \<Longrightarrow> chan_inv (fold (run_listener env msg) ls q)" for ls q
    by (induction ls arbitrary: q) (simp_all add: chan_inv_run_listener)
  then show "chan_inv p \<Longrightarrow> chan_inv (deliver env msg p)" by (simp add: deliver_def)
qed

lemma chan_inv_page_destroy: "chan_inv p \<Longrightarrow> chan_inv (fst (page_destroy p))"
proof (cases "destroyed p")
  case True
  then show "chan_inv p \<Longrightarrow> ?thesis" by (simp add: page_destroy_def)
next
  case False
  assume inv: "chan_inv p"
  let ?p1 = "p\<lparr>destroyed := True,
                 wc_listeners :=
                   removeListener (''render-process-gone'', onCrash p)
                     (removeListener (''did-finish-load'', onFinishLoad p) (wc_listeners p))\<rparr>"
  have "same_channel ?p1 p" by (simp add: same_channel_def)
  with inv have "chan_inv ?p1" by (simp add: chan_inv_cong)
  then have "chan_inv (dialogs_destroy (network_destroy ?p1))"
    by (intro chan_inv_dialogs_destroy chan_inv_network_destroy)
  moreover have "same_channel (safeDetachDebugger (downloads_destroy q)) q" for q
    by (simp add: same_channel_def safeDetachDebugger_def downloads_destroy_def
        downloads_disable_def Let_def split: option.splits)
  from chan_inv_cong [OF this]
  have "chan_inv (safeDetachDebugger (downloads_destroy q)) = chan_inv q" for q .
  ultimately have "chan_inv (safeDetachDebugger (downloads_destroy (dialogs_destroy (network_destroy ?p1))))"
    by simp
  with False show ?thesis by (simp add: page_destroy_def Let_def)
qed

lemma same_channel_on_willDownload: "same_channel (on_willDownload a item p) p"
  by (simp add: same_channel_def on_willDownload_def Let_def)

lemma same_channel_session_willDownload: "same_channel (session_willDownload item p) p"
proof -
  have "same_channel (fold (\<lambda>l q. if fst l = ''will-download''
      then on_willDownload (snd (snd l)) item q else q) ls q) q" for ls q
  proof (induction ls arbitrary: q)
    case Nil
    show ?case by (simp add: same_channel_def)
  next
    case (Cons l ls)
    show ?case
      using Cons [of "if fst l = ''will-download'' then on_willDownload (snd (snd l)) item q else q"]
        same_channel_on_willDownload [of "snd (snd l)" item q]
      by (auto intro: same_channel_trans)
  qed
  then show ?thesis by (simp add: session_willDownload_def)
qed

lemma same_channel_downloads:
  "same_channel (item_state n st p) p" "same_channel (downloads_disable p) p"
  "same_channel (downloads_destroy p) p"
  by (simp_all add: same_channel_def item_state_def downloads_disable_def downloads_destroy_def
      Let_def split: option.splits)

lemma chan_inv_downloads_enable: "chan_inv p \<Longrightarrow> chan_inv (downloads_enable options p)"
  by (auto simp: chan_inv_def registrations_def downloads_enable_def Let_def list_all_iff
      less_Suc_eq)

lemma chan_inv_apply_op: "chan_inv p \<Longrightarrow> chan_inv (apply_op op p)"
  by (cases op)
     (simp_all add: chan_inv_cong [OF same_channel_network_enable]
        chan_inv_cong [OF same_channel_safeAttach] chan_inv_cong [OF same_channel_cdpSend]
        chan_inv_cong [OF same_channel_network_disable] chan_inv_blockResourceTypes
        chan_inv_interceptRequests chan_inv_network_destroy chan_inv_interceptFileChooser
        chan_inv_stopInterceptFileChooser chan_inv_dialogs_enable chan_inv_dialogs_disable
        chan_inv_dialogs_destroy chan_inv_deliver chan_inv_page_destroy
        chan_inv_cong [OF same_channel_session_willDownload]
        chan_inv_cong [OF same_channel_downloads(1)] chan_inv_cong [OF same_channel_downloads(2)]
        chan_inv_cong [OF same_channel_downloads(3)] chan_inv_downloads_enable
        page_didFinishLoad_def applyPerformanceOptions_def)

lemma chan_inv_new: "chan_inv ((new_page r images animations)\<lparr>wc_userAgent := ua\<rparr>)"
  by (simp add: chan_inv_def registrations_def new_page_def)

lemma chan_inv_run: "chan_inv p \<Longrightarrow> chan_inv (page_run ops p)"
  unfolding page_run_def by (induction ops arbitrary: p) (simp_all add: chan_inv_apply_op)


lemma listens_to_cases:
  "listens_to h = ''Fetch.requestPaused'' \<or> listens_to h = ''Page.fileChooserOpened'' \<or>
   listens_to h = ''Page.javascriptDialogOpening''"
  by (cases h) simp_all

lemma chan_inv_at_most_one:
  assumes "chan_inv p"
  shows "length (registrations m p) \<le> 1"
proof -
  consider "m = ''Fetch.requestPaused''" | "m = ''Page.fileChooserOpened''"
    | "m = ''Page.javascriptDialogOpening''"
    | "m \<noteq> ''Fetch.requestPaused''" "m \<noteq> ''Page.fileChooserOpened''"
      "m \<noteq> ''Page.javascriptDialogOpening''"
    by blast
  then show ?thesis
  proof cases
    case 1
    with assms show ?thesis by (cases "onRequestPaused p") (simp_all add: chan_inv_def)
  next
    case 2
    with assms show ?thesis by (cases "fileChooserListener p") (simp_all add: chan_inv_def)
  next
    case 3
    with assms show ?thesis by (cases "onDialog p") (simp_all add: chan_inv_def)
  next
    case 4
    have "listens_to (snd l) \<noteq> m" for l :: listener
      using 4 listens_to_cases [of "snd l"] by auto
    then show ?thesis by (simp add: registrations_def)
  qed
qed

text \<open>The link that overlapping calls keep.\<close>

lemma slot_inv_cong: "same_channel q p \<Longrightarrow> slot_inv q = slot_inv p"
  by (simp add: same_channel_def slot_inv_def registrations_def)

lemma chan_inv_slot: "chan_inv p \<Longrightarrow> slot_inv p"
  by (cases "onDialog p") (auto simp: chan_inv_def slot_inv_def registrations_def filter_eq_Cons_iff)

lemma filter_removeListener_other:
  "listens_to (snd l) \<noteq> m \<Longrightarrow>
   filter (\<lambda>x. listens_to (snd x) = m) (removeListener l ls) =
   filter (\<lambda>x. listens_to (snd x) = m) ls"
  by (simp add: filter_removeListener removeListener_notin)

lemma slot_inv_install_fetch:
  assumes "slot_inv p" and "listens_to h = ''Fetch.requestPaused''"
  shows "slot_inv (install_onRequestPaused h p)"
proof -
  from assms(1)
  have f: "filter (\<lambda>l. listens_to (snd l) = ''Fetch.requestPaused'') (dbg_listeners p) =
      option_list (onRequestPaused p)"
    and b: "list_all (\<lambda>x. fst x < nextClosure p) (dbg_listeners p)"
    by (simp_all add: slot_inv_def registrations_def)
  from assms filter_removed [OF f] removed_bound_Suc [OF b, of "onRequestPaused p"] show ?thesis
    by (simp add: slot_inv_def registrations_def emitter_on_def install_onRequestPaused_def
        Let_def removed_def)
qed

lemma slot_inv_install_chooser:
  assumes "slot_inv p"
  shows "slot_inv (install_fileChooserListener files persistent p)"
proof -
  from assms
  have f: "filter (\<lambda>l. listens_to (snd l) = ''Page.fileChooserOpened'') (dbg_listeners p) =
      option_list (fileChooserListener p)"
    and b: "list_all (\<lambda>x. fst x < nextClosure p) (dbg_listeners p)"
    by (simp_all add: slot_inv_def registrations_def)
  from assms filter_removed [OF f] removed_bound_Suc [OF b, of "fileChooserListener p"] show ?thesis
    by (simp add: slot_inv_def registrations_def emitter_on_def install_fileChooserListener_def
        Let_def removed_def)
qed

lemma slot_inv_install_dialog:
  assumes "slot_inv p"
  shows "slot_inv (install_onDialog options p)"
  using assms
  by (auto simp: slot_inv_def registrations_def emitter_on_def install_onDialog_def Let_def
      list_all_iff less_Suc_eq)

lemma slot_inv_drop_fetch:
  assumes "slot_inv p"
    and "dbg_listeners q = removed (onRequestPaused p) (dbg_listeners p)"
    and "onRequestPaused q = None"
    and "fileChooserListener q = fileChooserListener p" and "onDialog q = onDialog p"
    and "nextClosure q = nextClosure p"
  shows "slot_inv q"
proof -
  from assms(1)
  have f: "filter (\<lambda>l. listens_to (snd l) = ''Fetch.requestPaused'') (dbg_listeners p) =
      option_list (onRequestPaused p)"
    and b: "list_all (\<lambda>x. fst x < nextClosure p) (dbg_listeners p)"
    by (simp_all add: slot_inv_def registrations_def)
  from assms filter_removed [OF f] removed_bound [OF b, of "onRequestPaused p"] show ?thesis
    by (simp add: slot_inv_def registrations_def)
qed

lemma slot_inv_drop_chooser:
  assumes "slot_inv p"
    and "dbg_listeners q = removed (fileChooserListener p) (dbg_listeners p)"
    and "fileChooserListener q = None"
    and "onRequestPaused q = onRequestPaused p" and "onDialog q = onDialog p"
    and "nextClosure q = nextClosure p"
  shows "slot_inv q"
proof -
  from assms(1)
  have f: "filter (\<lambda>l. listens_to (snd l) = ''Page.fileChooserOpened'') (dbg_listeners p) =
      option_list (fileChooserListener p)"
    and b: "list_all (\<lambda>x. fst x < nextClosure p) (dbg_listeners p)"
    by (simp_all add: slot_inv_def registrations_def)
  from assms filter_removed [OF f] removed_bound [OF b, of "fileChooserListener p"] show ?thesis
    by (simp add: slot_inv_def registrations_def)
qed

lemma slot_inv_network_destroy:
  assumes "slot_inv p"
  shows "slot_inv (network_destroy p)"
  using assms
  by (rule slot_inv_drop_fetch)
     (simp_all add: network_destroy_def removed_def Let_def split: option.splits)

lemma slot_inv_stop_chooser:
  assumes "slot_inv p"
  shows "slot_inv (case fileChooserListener p of
                  Some l \<Rightarrow> p\<lparr>dbg_listeners := removeListener l (dbg_listeners p),
                               fileChooserListener := None\<rparr>
                | None \<Rightarrow> p)"
  using assms
  by (rule slot_inv_drop_chooser) (simp_all add: removed_def split: option.splits)

lemma slot_inv_dialogs_disable:
  assumes "slot_inv p"
  shows "slot_inv (dialogs_disable p)"
proof (cases "onDialog p")
  case None
  with assms show ?thesis
    by (simp add: slot_inv_def registrations_def dialogs_disable_def)
next
  case (Some l)
  with assms have k: "listens_to (snd l) = ''Page.javascriptDialogOpening''"
    and b: "list_all (\<lambda>x. fst x < nextClosure p) (dbg_listeners p)"
    by (simp_all add: slot_inv_def)
  from b have "list_all (\<lambda>x. fst x < nextClosure p) (removeListener l (dbg_listeners p))"
    by (auto simp: list_all_iff dest: set_removeListener [THEN subsetD])
  with assms Some k show ?thesis
    by (simp add: slot_inv_def registrations_def dialogs_disable_def filter_removeListener_other)
qed

lemma slot_inv_dialogs_destroy: "slot_inv p \<Longrightarrow> slot_inv (dialogs_destroy p)"
proof -
  assume "slot_inv p"
  then have "slot_inv (dialogs_disable p)" by (rule slot_inv_dialogs_disable)
  moreover have "same_channel (dialogs_destroy p) (dialogs_disable p)"
    by (simp add: same_channel_def dialogs_destroy_def)
  ultimately show ?thesis by (simp add: slot_inv_cong)
qed

lemma slot_inv_downloads_enable: "slot_inv p \<Longrightarrow> slot_inv (downloads_enable options p)"
  by (auto simp: slot_inv_def registrations_def downloads_enable_def Let_def list_all_iff
      less_Suc_eq)

lemma slot_inv_page_destroy: "slot_inv p \<Longrightarrow> slot_inv (fst (page_destroy p))"
proof (cases "destroyed p")
  case True
  then show "slot_inv p \<Longrightarrow> ?thesis" by (simp add: page_destroy_def)
next
  case False
  assume inv: "slot_inv p"
  let ?p1 = "p\<lparr>destroyed := True,
                 wc_listeners :=
                   removeListener (''render-process-gone'', onCrash p)
                     (removeListener (''did-finish-load'', onFinishLoad p) (wc_listeners p))\<rparr>"
  have "same_channel ?p1 p" by (simp add: same_channel_def)
  with inv have "slot_inv ?p1" by (simp add: slot_inv_cong)
  then have "slot_inv (dialogs_destroy (network_destroy ?p1))"
    by (intro slot_inv_dialogs_destroy slot_inv_network_destroy)
  moreover have "same_channel (safeDetachDebugger (downloads_destroy q)) q" for q
    by (simp add: same_channel_def safeDetachDebugger_def downloads_destroy_def
        downloads_disable_def Let_def split: option.splits)
  from slot_inv_cong [OF this]
  have "slot_inv (safeDetachDebugger (downloads_destroy q)) = slot_inv q" for q .
  ultimately have "slot_inv (safeDetachDebugger (downloads_destroy (dialogs_destroy (network_destroy ?p1))))"
    by simp
  with False show ?thesis by (simp add: page_destroy_def Let_def)
qed

lemma slot_inv_run_sync: "slot_inv p \<Longrightarrow> slot_inv (run_sync c p)"
  by (cases c)
     (simp_all add: slot_inv_network_destroy slot_inv_dialogs_disable slot_inv_dialogs_destroy
        slot_inv_downloads_enable slot_inv_page_destroy
        slot_inv_cong [OF same_channel_downloads(2)] slot_inv_cong [OF same_channel_downloads(3)])

text \<open>Pieces of code that keep the link, composed.\<close>

lemma segment_okI:
  "(\<And>p. slot_inv p \<Longrightarrow> slot_inv (fst (f p)) \<and> task_ok (snd (f p))) \<Longrightarrow> segment_ok f"
  by (simp add: segment_ok_def)

lemma segment_okD:
  "segment_ok f \<Longrightarrow> slot_inv p \<Longrightarrow> slot_inv (fst (f p)) \<and> task_ok (snd (f p))"
  by (simp add: segment_ok_def)

lemma task_ok_Step_iff: "task_ok (Step f) = segment_ok f"
  by (auto simp: segment_ok_def intro: task_ok.intros elim: task_ok.cases)

lemma segment_ok_finished: "segment_ok (finished ok)"
  by (simp add: segment_ok_def finished_def task_ok.intros)

lemma segment_ok_return: "segment_ok (k ok) \<Longrightarrow> segment_ok (\<lambda>q. (q, Step (k ok)))"
  by (simp add: segment_ok_def task_ok_Step_iff)

lemma segment_ok_done: "segment_ok (\<lambda>q. (q, Done))"
  by (simp add: segment_ok_def task_ok.intros)

lemma segment_ok_safeAttach:
  assumes "\<And>ok. segment_ok (k ok)"
  shows "segment_ok (safeAttachDebugger_async env k)"
  using assms
  by (simp add: segment_ok_def safeAttachDebugger_async_def Let_def task_ok_Step_iff
      slot_inv_cong [OF same_channel_safeAttach])

lemma segment_ok_cdpSend:
  assumes "\<And>ok. segment_ok (k ok)"
  shows "segment_ok (cdpSend_async env cmd k)"
proof -
  have s: "slot_inv (q\<lparr>sent := x\<rparr>) = slot_inv q" for q x
    by (rule slot_inv_cong) (simp add: same_channel_def)
  have "segment_ok (\<lambda>q. if \<not> ok then (q, Step (k False))
                     else (q\<lparr>sent := sent q @ [cmd]\<rparr>, Step (k (send_ok env cmd))))" for ok
    using assms by (simp add: segment_ok_def task_ok_Step_iff s)
  from segment_ok_safeAttach [of "\<lambda>ok q. if \<not> ok then (q, Step (k False))
                     else (q\<lparr>sent := sent q @ [cmd]\<rparr>, Step (k (send_ok env cmd)))" env, OF this]
  show ?thesis
    using assms
    by (simp add: segment_ok_def cdpSend_async_def task_ok_Step_iff s)
qed


lemma slot_inv_field_updates:
  "slot_inv (q\<lparr>net_enabled := b\<rparr>) = slot_inv q"
  "slot_inv (q\<lparr>interceptHandler := h\<rparr>) = slot_inv q"
  "slot_inv (q\<lparr>dialogHistory := hs\<rparr>) = slot_inv q"
  by (simp_all add: slot_inv_def registrations_def)

lemma segment_ok_network_enable:
  assumes "\<And>ok. segment_ok (k ok)"
  shows "segment_ok (network_enable_async env k)"
proof -
  have 1: "segment_ok (\<lambda>q. if ok then (q\<lparr>net_enabled := True\<rparr>, Step (k True))
                          else (q, Step (k False)))" for ok
    using assms by (simp add: segment_ok_def task_ok_Step_iff slot_inv_field_updates)
  have 2: "segment_ok (cdpSend_async env NetworkEnable
                  (\<lambda>ok q. if ok then (q\<lparr>net_enabled := True\<rparr>, Step (k True))
                          else (q, Step (k False))))"
    by (rule segment_ok_cdpSend) (rule 1)
  have 3: "segment_ok (safeAttachDebugger_async env (\<lambda>attached_ok.
                cdpSend_async env NetworkEnable
                  (\<lambda>ok q. if ok then (q\<lparr>net_enabled := True\<rparr>, Step (k True))
                          else (q, Step (k False)))))"
    by (rule segment_ok_safeAttach) (rule 2)
  show ?thesis
    using assms 3 by (simp add: segment_ok_def network_enable_async_def task_ok_Step_iff)
qed

lemma segment_ok_network_disable:
  assumes "\<And>ok. segment_ok (k ok)"
  shows "segment_ok (network_disable_async env k)"
proof -
  have "segment_ok (cdpSend_async env NetworkDisable
             (\<lambda>ok q. (q\<lparr>net_enabled := False\<rparr>, Step (k True))))"
    using assms
    by (intro segment_ok_cdpSend) (simp add: segment_ok_def task_ok_Step_iff slot_inv_field_updates)
  then show ?thesis
    using assms by (simp add: segment_ok_def network_disable_async_def task_ok_Step_iff)
qed

lemma segment_ok_blockResourceTypes:
  assumes "\<And>ok. segment_ok (k ok)"
  shows "segment_ok (blockResourceTypes_async env typesArray k)"
proof -
  have 3: "segment_ok (\<lambda>q. if \<not> ok3 then (q, Step (k False))
                          else (install_onRequestPaused (BlockByType typesArray) q,
                                Step (k True)))" for ok3
    using assms by (simp add: segment_ok_def task_ok_Step_iff slot_inv_install_fetch)
  have 2: "segment_ok (if \<not> ok2 then (\<lambda>q. (q, Step (k False))) else
               cdpSend_async env (FetchEnableTypes typesArray)
                 (\<lambda>ok3 q. if \<not> ok3 then (q, Step (k False))
                          else (install_onRequestPaused (BlockByType typesArray) q,
                                Step (k True))))" for ok2
    using assms segment_ok_cdpSend [of _ env "FetchEnableTypes typesArray", OF 3]
    by (simp add: segment_ok_return)
  have 1: "segment_ok (if \<not> ok1 then (\<lambda>q. (q, Step (k False))) else
          cdpSend_async env (NetworkSetBlockedURLs [])
            (\<lambda>ok2. if \<not> ok2 then (\<lambda>q. (q, Step (k False))) else
               cdpSend_async env (FetchEnableTypes typesArray)
                 (\<lambda>ok3 q. if \<not> ok3 then (q, Step (k False))
                          else (install_onRequestPaused (BlockByType typesArray) q,
                                Step (k True)))))" for ok1
    using assms segment_ok_cdpSend [of _ env "NetworkSetBlockedURLs []", OF 2]
    by (simp add: segment_ok_return)
  show ?thesis
    unfolding blockResourceTypes_async_def by (rule segment_ok_network_enable) (rule 1)
qed

lemma segment_ok_interceptRequests:
  assumes "\<And>ok. segment_ok (k ok)"
  shows "segment_ok (interceptRequests_async env h k)"
proof -
  have 3: "segment_ok (\<lambda>q. if \<not> ok3 then (q, Step (k False))
                     else (install_onRequestPaused InterceptWithHandler q, Step (k True)))" for ok3
    using assms by (simp add: segment_ok_def task_ok_Step_iff slot_inv_install_fetch)
  have 2: "segment_ok (cdpSend_async env FetchEnableAll
            (\<lambda>ok3 q. if \<not> ok3 then (q, Step (k False))
                     else (install_onRequestPaused InterceptWithHandler q, Step (k True))))"
    by (rule segment_ok_cdpSend) (rule 3)
  have 1: "segment_ok (\<lambda>q1. if \<not> ok1 then (q1, Step (k False)) else
          cdpSend_async env FetchEnableAll
            (\<lambda>ok3 q. if \<not> ok3 then (q, Step (k False))
                     else (install_onRequestPaused InterceptWithHandler q, Step (k True)))
            (q1\<lparr>interceptHandler := h\<rparr>))" for ok1
    using assms 2 by (simp add: segment_ok_def task_ok_Step_iff slot_inv_field_updates)
  show ?thesis
    unfolding interceptRequests_async_def by (rule segment_ok_network_enable) (rule 1)
qed

lemma segment_ok_stopInterceptFileChooser:
  assumes "\<And>ok. segment_ok (k ok)"
  shows "segment_ok (stopInterceptFileChooser_async env k)"
proof -
  have "segment_ok (cdpSend_async env (PageSetInterceptFileChooserDialog False)
           (\<lambda>ok q. (q, Step (k True))))"
    using assms by (intro segment_ok_cdpSend) (simp add: segment_ok_return)
  then show ?thesis
    using slot_inv_stop_chooser
    by (simp add: segment_ok_def stopInterceptFileChooser_async_def Let_def)
qed

lemma segment_ok_interceptFileChooser:
  assumes "\<And>ok. segment_ok (k ok)"
  shows "segment_ok (interceptFileChooser_async env files persistent k)"
proof -
  have 3: "segment_ok (\<lambda>q. if \<not> ok3 then (q, Step (k False))
                          else (install_fileChooserListener files persistent q,
                                Step (k True)))" for ok3
    using assms by (simp add: segment_ok_def task_ok_Step_iff slot_inv_install_chooser)
  have 2: "segment_ok (if \<not> ok2 then (\<lambda>q. (q, Step (k False))) else
               cdpSend_async env (PageSetInterceptFileChooserDialog True)
                 (\<lambda>ok3 q. if \<not> ok3 then (q, Step (k False))
                          else (install_fileChooserListener files persistent q,
                                Step (k True))))" for ok2
    using assms segment_ok_cdpSend [of _ env "PageSetInterceptFileChooserDialog True", OF 3]
    by (simp add: segment_ok_return)
  have 1: "segment_ok (cdpSend_async env PageEnable
            (\<lambda>ok2. if \<not> ok2 then (\<lambda>q. (q, Step (k False))) else
               cdpSend_async env (PageSetInterceptFileChooserDialog True)
                 (\<lambda>ok3 q. if \<not> ok3 then (q, Step (k False))
                          else (install_fileChooserListener files persistent q,
                                Step (k True)))))"
    by (rule segment_ok_cdpSend) (rule 2)
  show ?thesis
    unfolding interceptFileChooser_async_def by (rule segment_ok_safeAttach) (rule 1)
qed

lemma segment_ok_dialogs_enable:
  assumes "\<And>ok. segment_ok (k ok)"
  shows "segment_ok (dialogs_enable_async env options k)"
proof -
  have 2: "segment_ok (\<lambda>q. if \<not> ok then (q, Step (k False))
                          else (install_onDialog options q, Step (k True)))" for ok
    using assms by (simp add: segment_ok_def task_ok_Step_iff slot_inv_install_dialog)
  have 1: "segment_ok (safeAttachDebugger_async env (\<lambda>attached_ok.
                cdpSend_async env PageEnable
                  (\<lambda>ok q. if \<not> ok then (q, Step (k False))
                          else (install_onDialog options q, Step (k True)))))"
    by (intro segment_ok_safeAttach segment_ok_cdpSend) (rule 2)
  show ?thesis
    using assms 1 by (simp add: segment_ok_def dialogs_enable_async_def task_ok_Step_iff)
qed

lemma segment_ok_start_call: "segment_ok (start_call c)"
  by (cases c)
     (simp_all add: segment_ok_finished segment_ok_safeAttach segment_ok_cdpSend
        segment_ok_network_enable segment_ok_network_disable segment_ok_blockResourceTypes
        segment_ok_interceptRequests segment_ok_interceptFileChooser
        segment_ok_stopInterceptFileChooser segment_ok_dialogs_enable)

lemma segment_ok_if:
  "segment_ok f \<Longrightarrow> segment_ok g \<Longrightarrow> segment_ok (\<lambda>q. if b then f q else g q)"
  by (simp add: segment_ok_def)

lemma segment_ok_continue_unmodified: "segment_ok (continue_unmodified_async env r)"
  unfolding continue_unmodified_async_def
  by (rule segment_ok_cdpSend) (rule segment_ok_finished)

lemma segment_ok_send_or_fallback: "segment_ok (send_or_fallback_async env r cmd)"
  unfolding send_or_fallback_async_def
  by (rule segment_ok_cdpSend)
     (intro segment_ok_if segment_ok_done segment_ok_continue_unmodified)

lemma segment_ok_on_block: "segment_ok (on_block_async env typesArray r)"
  by (simp add: on_block_async_def segment_ok_cdpSend segment_ok_finished)

lemma segment_ok_on_intercept: "segment_ok (on_intercept_async env r)"
proof (rule segment_okI)
  fix p assume inv: "slot_inv p"
  show "slot_inv (fst (on_intercept_async env r p)) \<and> task_ok (snd (on_intercept_async env r p))"
  proof (cases "interceptHandler p")
    case None
    with inv segment_okD [OF segment_ok_continue_unmodified, of p env r] show ?thesis
      by (simp add: on_intercept_async_def)
  next
    case (Some h)
    have "segment_ok (case h r of
               HandlerThrows \<Rightarrow> continue_unmodified_async env r
             | HandlerReturns None \<Rightarrow>
                 send_or_fallback_async env r (FetchContinueRequest (requestId r) None None)
             | HandlerReturns (Some result) \<Rightarrow>
                 if res_action result = Some ''continue''
                 then send_or_fallback_async env r
                        (FetchContinueRequest (requestId r) (or_null (res_url result))
                           (res_headers result))
                 else if res_action result = Some ''block''
                 then send_or_fallback_async env r
                        (FetchFailRequest (requestId r) ''BlockedByClient'')
                 else (\<lambda>q. (q, Done)))"
      by (simp add: segment_ok_continue_unmodified segment_ok_send_or_fallback segment_ok_done
          split: handler_outcome.splits option.splits)
    with inv Some show ?thesis
      by (simp add: on_intercept_async_def task_ok_Step_iff)
  qed
qed

lemma segment_ok_on_dialog: "segment_ok (on_dialog_async env d)"
proof (rule segment_okI)
  fix p assume inv: "slot_inv p"
  let ?p1 = "p\<lparr>dialogHistory := dialogHistory p @ [d]\<rparr>"
  from inv have i1: "slot_inv ?p1" by (simp add: slot_inv_field_updates)
  have s: "segment_ok (cdpSend_async env (PageHandleJavaScriptDialog a t) finished)" for a t
    by (rule segment_ok_cdpSend) (rule segment_ok_finished)
  show "slot_inv (fst (on_dialog_async env d p)) \<and> task_ok (snd (on_dialog_async env d p))"
    using i1 s segment_okD [OF s i1]
    by (simp add: on_dialog_async_def Let_def task_ok_Step_iff split: option.splits)
qed

lemma segment_ok_on_fileChooser: "segment_ok (on_fileChooser_async env files persistent n)"
  unfolding on_fileChooser_async_def
  by (rule segment_ok_cdpSend)
     (intro segment_ok_if segment_ok_done segment_ok_stopInterceptFileChooser
        segment_ok_finished)

lemma segment_ok_run_listener: "segment_ok (run_listener_async env msg l)"
proof -
  obtain i h where l: "l = (i, h)" by (cases l)
  have e: "run_listener_async env msg (i, h) =
      (case (msg, h) of
         (RequestPaused r, BlockByType t) \<Rightarrow> on_block_async env t r
       | (RequestPaused r, InterceptWithHandler) \<Rightarrow> on_intercept_async env r
       | (FileChooserOpened n, ChooseFiles files persistent) \<Rightarrow>
           on_fileChooser_async env files persistent n
       | (JavascriptDialogOpening d, HandleDialog) \<Rightarrow> on_dialog_async env d
       | _ \<Rightarrow> (\<lambda>p. (p, Done)))"
    by (rule ext) (cases msg; cases h; simp)
  show ?thesis
    unfolding l e
    by (cases msg; cases h)
       (simp_all add: segment_ok_on_block segment_ok_on_intercept segment_ok_on_fileChooser
          segment_ok_on_dialog segment_ok_done)
qed

lemma sys_ok_deliver:
  assumes "slot_inv p"
  shows "sys_ok (deliver_async env msg p)"
proof -
  have "sys_ok s \<Longrightarrow> sys_ok (fold (\<lambda>l s. let r = run_listener_async env msg l (fst s)
      in (fst r, snd s @ [snd r])) ls s)" for ls s
  proof (induction ls arbitrary: s)
    case Nil
    then show ?case by simp
  next
    case (Cons l ls)
    from Cons.prems segment_okD [OF segment_ok_run_listener, of "fst s" env msg l]
    have "sys_ok (let r = run_listener_async env msg l (fst s) in (fst r, snd s @ [snd r]))"
      by (simp add: sys_ok_def Let_def)
    from Cons.IH [OF this] show ?case by simp
  qed
  with assms show ?thesis by (simp add: deliver_async_def sys_ok_def)
qed

lemma sys_ok_resume: "sys_ok s \<Longrightarrow> sys_ok (resume i s)"
proof -
  assume ok: "sys_ok s"
  show ?thesis
  proof (cases "i < length (snd s)")
    case False
    with ok show ?thesis by (simp add: resume_def)
  next
    case True
    with ok have t: "task_ok (snd s ! i)" by (simp add: sys_ok_def list_all_length)
    show ?thesis
    proof (cases "snd s ! i")
      case Done
      from ok have "list_all task_ok (take i (snd s) @ drop (Suc i) (snd s))"
        by (auto simp: sys_ok_def list_all_iff dest: in_set_takeD in_set_dropD)
      with ok True Done show ?thesis by (simp add: resume_def sys_ok_def)
    next
      case (Step f)
      with t have "segment_ok f" by (simp add: task_ok_Step_iff)
      with ok have r: "slot_inv (fst (f (fst s)))" "task_ok (snd (f (fst s)))"
        by (simp_all add: segment_ok_def sys_ok_def)
      from ok r(2) have "list_all task_ok ((snd s)[i := snd (f (fst s))])"
        by (auto simp: sys_ok_def list_all_iff dest: set_update_subset_insert [THEN subsetD])
      with True Step r show ?thesis by (simp add: resume_def sys_ok_def Let_def)
    qed
  qed
qed

lemma sys_ok_step: "sys_ok s \<Longrightarrow> sys_ok (sys_step a s)"
proof (cases a)
  case (Start c)
  assume "sys_ok s"
  with segment_okD [OF segment_ok_start_call, of "fst s" c] Start show ?thesis
    by (simp add: sys_ok_def Let_def)
next
  case (Resume i)
  assume "sys_ok s"
  with Resume show ?thesis by (simp add: sys_ok_resume)
next
  case (Emit env msg)
  assume ok: "sys_ok s"
  then have "slot_inv (fst s)" by (simp add: sys_ok_def)
  then have "sys_ok (deliver_async env msg (fst s))" by (rule sys_ok_deliver)
  with ok Emit show ?thesis by (simp add: sys_ok_def Let_def)
next
  case (EmitDidFinishLoad env)
  assume ok: "sys_ok s"
  have b: "segment_ok (blockResourceTypes_async env [''Image'', ''Media''] finished)"
    by (rule segment_ok_blockResourceTypes) (rule segment_ok_finished)
  have "segment_ok (page_didFinishLoad_async env)"
    using b
    by (simp add: segment_ok_def page_didFinishLoad_async_def applyPerformanceOptions_async_def
        task_ok.intros)
  with ok EmitDidFinishLoad show ?thesis
    by (simp add: sys_ok_def Let_def segment_ok_def)
next
  case (Sync c)
  assume "sys_ok s"
  with Sync show ?thesis by (simp add: sys_ok_def slot_inv_run_sync)
qed

lemma sys_ok_run: "sys_ok s \<Longrightarrow> sys_ok (sys_run acts s)"
  unfolding sys_run_def by (induction acts arbitrary: s) (simp_all add: sys_ok_step)

lemma slot_inv_overlapped: "slot_inv (overlapped_page v images animations ua acts)"
proof -
  have "slot_inv ((new_page v images animations)\<lparr>wc_userAgent := ua\<rparr>)"
    by (simp add: slot_inv_def registrations_def new_page_def)
  then have "sys_ok ((new_page v images animations)\<lparr>wc_userAgent := ua\<rparr>, [])"
    by (simp add: sys_ok_def)
  from sys_ok_run [OF this, of acts] show ?thesis
    by (simp add: overlapped_page_def sys_ok_def)
qed

text \<open>Replacement: what a successful installing call leaves on the channel.\<close>

lemma slot_inv_at_most_one:
  assumes "slot_inv p"
  shows "length (registrations ''Fetch.requestPaused'' p) \<le> 1"
    and "length (registrations ''Page.fileChooserOpened'' p) \<le> 1"
  using assms
  by (cases "onRequestPaused p"; cases "fileChooserListener p"; simp add: slot_inv_def)+

lemma slot_old_fresh:
  assumes "filter P (dbg_listeners p) = option_list (Some old)"
    and "list_all (\<lambda>x. fst x < nextClosure p) (dbg_listeners p)"
  shows "old \<noteq> (nextClosure p, h)"
proof -
  from assms(1) have "old \<in> set (filter P (dbg_listeners p))" by simp
  then have "old \<in> set (dbg_listeners p)" by simp
  with assms(2) have "fst old < nextClosure p" by (simp add: list_all_iff)
  then show ?thesis by auto
qed

lemma install_replaces:
  assumes "slot_inv p" and "listens_to h = ''Fetch.requestPaused''"
  shows "registrations ''Fetch.requestPaused'' (install_onRequestPaused h p) = [(nextClosure p, h)]"
    and "onRequestPaused p = Some old \<Longrightarrow> old \<notin> set (dbg_listeners (install_onRequestPaused h p))"
proof -
  from slot_inv_install_fetch [OF assms]
  show "registrations ''Fetch.requestPaused'' (install_onRequestPaused h p) = [(nextClosure p, h)]"
    by (simp add: slot_inv_def install_onRequestPaused_def Let_def)
next
  assume old: "onRequestPaused p = Some old"
  let ?P = "\<lambda>l::listener. listens_to (snd l) = ''Fetch.requestPaused''"
  from assms(1) old have f: "filter ?P (dbg_listeners p) = option_list (Some old)"
    and b: "list_all (\<lambda>x. fst x < nextClosure p) (dbg_listeners p)"
    by (simp_all add: slot_inv_def registrations_def)
  from f b have "old \<noteq> (nextClosure p, h)" by (rule slot_old_fresh)
  moreover from f have "old \<notin> set (removed (Some old) (dbg_listeners p))"
    by (rule removed_old_gone)
  ultimately show "old \<notin> set (dbg_listeners (install_onRequestPaused h p))"
    using old by (simp add: install_onRequestPaused_def Let_def removed_def emitter_on_def)
qed

lemma install_chooser_replaces:
  assumes "slot_inv p"
  shows "registrations ''Page.fileChooserOpened'' (install_fileChooserListener files persistent p) =
      [(nextClosure p, ChooseFiles files persistent)]"
    and "fileChooserListener p = Some old \<Longrightarrow>
      old \<notin> set (dbg_listeners (install_fileChooserListener files persistent p))"
proof -
  from slot_inv_install_chooser [OF assms, of files persistent]
  show "registrations ''Page.fileChooserOpened'' (install_fileChooserListener files persistent p) =
      [(nextClosure p, ChooseFiles files persistent)]"
    by (simp add: slot_inv_def install_fileChooserListener_def Let_def)
next
  assume old: "fileChooserListener p = Some old"
  let ?P = "\<lambda>l::listener. listens_to (snd l) = ''Page.fileChooserOpened''"
  from assms(1) old have f: "filter ?P (dbg_listeners p) = option_list (Some old)"
    and b: "list_all (\<lambda>x. fst x < nextClosure p) (dbg_listeners p)"
    by (simp_all add: slot_inv_def registrations_def)
  from f b have "old \<noteq> (nextClosure p, ChooseFiles files persistent)" by (rule slot_old_fresh)
  moreover from f have "old \<notin> set (removed (Some old) (dbg_listeners p))"
    by (rule removed_old_gone)
  ultimately show "old \<notin> set (dbg_listeners (install_fileChooserListener files persistent p))"
    using old by (simp add: install_fileChooserListener_def Let_def removed_def emitter_on_def)
qed

lemma blockResourceTypes_replaces:
  assumes "slot_inv p" and "fst (blockResourceTypes env typesArray p)"
  shows "registrations ''Fetch.requestPaused'' (snd (blockResourceTypes env typesArray p)) =
      [(nextClosure p, BlockByType typesArray)]"
    and "onRequestPaused p = Some old \<Longrightarrow>
      old \<notin> set (dbg_listeners (snd (blockResourceTypes env typesArray p)))"
proof -
  let ?p3 = "snd (cdpSend env (FetchEnableTypes typesArray)
     (snd (cdpSend env (NetworkSetBlockedURLs []) (snd (network_enable env p)))))"
  have s: "same_channel ?p3 p"
    by (intro same_channel_trans [OF same_channel_cdpSend]
        same_channel_trans [OF same_channel_cdpSend] same_channel_network_enable)
  with assms(1) have inv: "slot_inv ?p3" by (simp add: slot_inv_cong)
  from assms(2) have eq: "snd (blockResourceTypes env typesArray p) =
      install_onRequestPaused (BlockByType typesArray) ?p3"
    by (simp add: blockResourceTypes_def Let_def split: if_splits)
  from s have n: "nextClosure ?p3 = nextClosure p" "onRequestPaused ?p3 = onRequestPaused p"
    by (simp_all add: same_channel_def)
  from install_replaces(1) [OF inv, of "BlockByType typesArray"] n
  show "registrations ''Fetch.requestPaused'' (snd (blockResourceTypes env typesArray p)) =
      [(nextClosure p, BlockByType typesArray)]"
    by (simp add: eq)
  assume "onRequestPaused p = Some old"
  with n have "onRequestPaused ?p3 = Some old" by simp
  from install_replaces(2) [OF inv _ this, of "BlockByType typesArray"]
  show "old \<notin> set (dbg_listeners (snd (blockResourceTypes env typesArray p)))"
    by (simp add: eq)
qed

lemma interceptRequests_replaces:
  assumes "slot_inv p" and "fst (interceptRequests env h p)"
  shows "registrations ''Fetch.requestPaused'' (snd (interceptRequests env h p)) =
      [(nextClosure p, InterceptWithHandler)]"
    and "onRequestPaused p = Some old \<Longrightarrow>
      old \<notin> set (dbg_listeners (snd (interceptRequests env h p)))"
proof -
  let ?p3 = "snd (cdpSend env FetchEnableAll ((snd (network_enable env p))\<lparr>interceptHandler := h\<rparr>))"
  have "same_channel ((snd (network_enable env p))\<lparr>interceptHandler := h\<rparr>) (snd (network_enable env p))"
    by (simp add: same_channel_def)
  then have "same_channel ((snd (network_enable env p))\<lparr>interceptHandler := h\<rparr>) p"
    using same_channel_network_enable by (rule same_channel_trans)
  with same_channel_cdpSend have s: "same_channel ?p3 p"
    by (rule same_channel_trans)
  with assms(1) have inv: "slot_inv ?p3" by (simp add: slot_inv_cong)
  from assms(2) have eq: "snd (interceptRequests env h p) =
      install_onRequestPaused InterceptWithHandler ?p3"
    by (simp add: interceptRequests_def Let_def split: if_splits)
  from s have n: "nextClosure ?p3 = nextClosure p" "onRequestPaused ?p3 = onRequestPaused p"
    by (simp_all add: same_channel_def)
  from install_replaces(1) [OF inv, of InterceptWithHandler] n
  show "registrations ''Fetch.requestPaused'' (snd (interceptRequests env h p)) =
      [(nextClosure p, InterceptWithHandler)]"
    by (simp add: eq)
  assume "onRequestPaused p = Some old"
  with n have "onRequestPaused ?p3 = Some old" by simp
  from install_replaces(2) [OF inv _ this, of InterceptWithHandler]
  show "old \<notin> set (dbg_listeners (snd (interceptRequests env h p)))"
    by (simp add: eq)
qed

lemma interceptFileChooser_replaces:
  assumes "slot_inv p" and "fst (interceptFileChooser env files persistent p)"
  shows "registrations ''Page.fileChooserOpened'' (snd (interceptFileChooser env files persistent p)) =
      [(nextClosure p, ChooseFiles files persistent)]"
    and "fileChooserListener p = Some old \<Longrightarrow>
      old \<notin> set (dbg_listeners (snd (interceptFileChooser env files persistent p)))"
proof -
  let ?p3 = "snd (cdpSend env (PageSetInterceptFileChooserDialog True)
     (snd (cdpSend env PageEnable (snd (safeAttachDebugger env p)))))"
  have s: "same_channel ?p3 p"
    by (intro same_channel_trans [OF same_channel_cdpSend]
        same_channel_trans [OF same_channel_cdpSend] same_channel_safeAttach)
  with assms(1) have inv: "slot_inv ?p3" by (simp add: slot_inv_cong)
  from assms(2) have eq: "snd (interceptFileChooser env files persistent p) =
      install_fileChooserListener files persistent ?p3"
    by (simp add: interceptFileChooser_def Let_def split: if_splits)
  from s have n: "nextClosure ?p3 = nextClosure p" "fileChooserListener ?p3 = fileChooserListener p"
    by (simp_all add: same_channel_def)
  from install_chooser_replaces(1) [OF inv, of files persistent] n
  show "registrations ''Page.fileChooserOpened'' (snd (interceptFileChooser env files persistent p)) =
      [(nextClosure p, ChooseFiles files persistent)]"
    by (simp add: eq)
  assume "fileChooserListener p = Some old"
  with n have "fileChooserListener ?p3 = Some old" by simp
  from install_chooser_replaces(2) [OF inv this, of files persistent]
  show "old \<notin> set (dbg_listeners (snd (interceptFileChooser env files persistent p)))"
    by (simp add: eq)
qed

lemma run_listener_other:
  "listens_to (snd l) \<noteq> method_of msg \<Longrightarrow> run_listener env msg l p = p"
  by (cases l; cases msg; cases "snd l") auto

lemma fold_run_listener:
  "fold (run_listener env msg) ls p =
   fold (run_listener env msg) (filter (\<lambda>l. listens_to (snd l) = method_of msg) ls) p"
  by (induction ls arbitrary: p) (simp_all add: run_listener_other)

lemma deliver_RequestPaused:
  assumes "slot_inv p"
  shows "deliver env (RequestPaused r) p =
    fold (run_listener env (RequestPaused r)) (option_list (onRequestPaused p)) p"
proof -
  from assms have "filter (\<lambda>l. listens_to (snd l) = method_of (RequestPaused r)) (dbg_listeners p) =
      option_list (onRequestPaused p)"
    by (simp add: slot_inv_def registrations_def)
  then show ?thesis
    unfolding deliver_def by (subst fold_run_listener) simp
qed

lemma sent_since_append: "sent q = sent p @ xs \<Longrightarrow> sent_since p q = xs"
  by (simp add: sent_since_def)

lemma continue_unmodified_sent:
  "sent (continue_unmodified env r p) =
     sent p @ (if attached p \<or> attach_ok env then [FetchContinueRequest (requestId r) None None] else [])"
  by (simp add: continue_unmodified_def cdpSend_sent)

lemma send_or_fallback_sent:
  "\<exists>xs. sent (send_or_fallback env r cmd p) = sent p @ xs \<and> length (filter (send_ok env) xs) \<le> 1"
  by (auto simp: send_or_fallback_def Let_def cdpSend_ok cdpSend_sent cdpSend_attached
      continue_unmodified_sent)

lemma on_intercept_sent:
  "\<exists>xs. sent (on_intercept env r p) = sent p @ xs \<and> length (filter (send_ok env) xs) \<le> 1"
proof -
  have "\<exists>xs. sent (continue_unmodified env r p) = sent p @ xs \<and> length (filter (send_ok env) xs) \<le> 1"
    by (simp add: continue_unmodified_sent)
  moreover have "\<exists>xs. sent p = sent p @ xs \<and> length (filter (send_ok env) xs) \<le> 1"
    by simp
  ultimately show ?thesis
    using send_or_fallback_sent [of env r _ p]
    by (simp add: on_intercept_def split: option.splits handler_outcome.splits)
qed

lemma on_block_sent:
  "\<exists>xs. sent (on_block env t r p) = sent p @ xs \<and> length (filter (send_ok env) xs) \<le> 1"
  by (simp add: on_block_def cdpSend_sent)

lemma run_listener_RequestPaused_sent:
  "\<exists>xs. sent (run_listener env (RequestPaused r) l p) = sent p @ xs \<and>
     length (filter (send_ok env) xs) \<le> 1"
proof -
  obtain i h where l: "l = (i, h)" by (cases l)
  show ?thesis
    unfolding l using on_intercept_sent [of env r p] on_block_sent [of env _ r p]
    by (cases h) simp_all
qed

lemma deliver_resolves_once:
  assumes "slot_inv p"
  shows "length (filter (send_ok env) (sent_since p (deliver env (RequestPaused r) p))) \<le> 1"
proof (cases "onRequestPaused p")
  case None
  with assms show ?thesis by (simp add: deliver_RequestPaused sent_since_def)
next
  case (Some l)
  from run_listener_RequestPaused_sent [of env r l p]
  obtain xs where "sent (run_listener env (RequestPaused r) l p) = sent p @ xs"
    and "length (filter (send_ok env) xs) \<le> 1" by blast
  with assms Some show ?thesis
    by (simp add: deliver_RequestPaused sent_since_append)
qed

text \<open>
  A call run alone is the method run as one step: resumed often enough with nothing in
  between, the task of a call ends with the page that the one-step version of the method
  gives, and so does a listener called with a message.
\<close>

lemma ends_in_Done: "ends_in (q, Done) q"
proof -
  have "run_alone n (q, Done) = q" for n by (cases n) simp_all
  then show ?thesis by (simp add: ends_in_def)
qed

lemma ends_in_Step: "ends_in (f p) q \<Longrightarrow> ends_in (p, Step f) q"
proof -
  assume "ends_in (f p) q"
  then obtain m where "\<forall>n. run_alone (m + n) (f p) = q" by (auto simp: ends_in_def)
  then have "\<forall>n. run_alone (Suc m + n) (p, Step f) = q" by simp
  then show ?thesis unfolding ends_in_def by blast
qed

lemma ends_in_finished: "ends_in (finished ok q) q"
  by (simp add: finished_def ends_in_Done)

lemma ends_in_safeAttach:
  assumes "ends_in (k (fst (safeAttachDebugger env p)) (snd (safeAttachDebugger env p))) q"
  shows "ends_in (safeAttachDebugger_async env k p) q"
  using assms by (simp add: safeAttachDebugger_async_def Let_def ends_in_Step)

lemma ends_in_cdpSend:
  assumes "ends_in (k (fst (cdpSend env cmd p)) (snd (cdpSend env cmd p))) q"
  shows "ends_in (cdpSend_async env cmd k p) q"
proof (cases "attached p")
  case True
  with assms show ?thesis
    by (simp add: cdpSend_async_def cdpSend_def Let_def ends_in_Step)
next
  case False
  have "ends_in ((\<lambda>ok q. if \<not> ok then (q, Step (k False))
                     else (q\<lparr>sent := sent q @ [cmd]\<rparr>, Step (k (send_ok env cmd))))
         (fst (safeAttachDebugger env p)) (snd (safeAttachDebugger env p))) q"
    using assms False by (auto simp: cdpSend_def Let_def intro: ends_in_Step)
  then have "ends_in (safeAttachDebugger_async env
             (\<lambda>ok q. if \<not> ok then (q, Step (k False))
                     else (q\<lparr>sent := sent q @ [cmd]\<rparr>, Step (k (send_ok env cmd)))) p) q"
    by (rule ends_in_safeAttach)
  with False show ?thesis by (simp add: cdpSend_async_def)
qed


lemma ends_in_network_enable:
  assumes "ends_in (k (fst (network_enable env p)) (snd (network_enable env p))) q"
  shows "ends_in (network_enable_async env k p) q"
proof (cases "net_enabled p")
  case True
  with assms show ?thesis
    by (simp add: network_enable_async_def network_enable_def ends_in_Step)
next
  case False
  let ?p1 = "snd (safeAttachDebugger env p)"
  let ?r = "cdpSend env NetworkEnable ?p1"
  let ?k = "\<lambda>ok q. if ok then (q\<lparr>net_enabled := True\<rparr>, Step (k True))
                          else (q, Step (k False))"
  have "ends_in (?k (fst ?r) (snd ?r)) q"
    using assms False by (auto simp: network_enable_def Let_def intro: ends_in_Step)
  then have "ends_in (cdpSend_async env NetworkEnable ?k ?p1) q"
    by (rule ends_in_cdpSend)
  then have "ends_in (safeAttachDebugger_async env (\<lambda>attached_ok.
      cdpSend_async env NetworkEnable ?k) p) q"
    by (rule ends_in_safeAttach)
  with False show ?thesis by (simp add: network_enable_async_def)
qed

lemma ends_in_network_disable:
  assumes "ends_in (k True (network_disable env p)) q"
  shows "ends_in (network_disable_async env k p) q"
proof (cases "net_enabled p")
  case False
  with assms show ?thesis
    by (simp add: network_disable_async_def network_disable_def ends_in_Step)
next
  case True
  let ?r = "cdpSend env NetworkDisable p"
  let ?k = "\<lambda>ok q. (q\<lparr>net_enabled := False\<rparr>, Step (k True))"
  have "ends_in (?k (fst ?r) (snd ?r)) q"
    using assms True by (auto simp: network_disable_def intro: ends_in_Step)
  then have "ends_in (cdpSend_async env NetworkDisable ?k p) q"
    by (rule ends_in_cdpSend)
  with True show ?thesis by (simp add: network_disable_async_def)
qed

lemma ends_in_blockResourceTypes:
  assumes "ends_in (k (fst (blockResourceTypes env typesArray p))
                      (snd (blockResourceTypes env typesArray p))) q"
  shows "ends_in (blockResourceTypes_async env typesArray k p) q"
proof -
  let ?r1 = "network_enable env p"
  let ?r2 = "cdpSend env (NetworkSetBlockedURLs []) (snd ?r1)"
  let ?r3 = "cdpSend env (FetchEnableTypes typesArray) (snd ?r2)"
  let ?k3 = "\<lambda>ok3 q. if \<not> ok3 then (q, Step (k False))
                          else (install_onRequestPaused (BlockByType typesArray) q,
                                Step (k True))"
  let ?k2 = "\<lambda>ok2. if \<not> ok2 then (\<lambda>q. (q, Step (k False))) else
               cdpSend_async env (FetchEnableTypes typesArray) ?k3"
  let ?k1 = "\<lambda>ok1. if \<not> ok1 then (\<lambda>q. (q, Step (k False))) else
          cdpSend_async env (NetworkSetBlockedURLs []) ?k2"
  have 3: "fst ?r1 \<Longrightarrow> fst ?r2 \<Longrightarrow> ends_in (?k3 (fst ?r3) (snd ?r3)) q"
    using assms by (auto simp: blockResourceTypes_def Let_def intro: ends_in_Step)
  have 2: "fst ?r1 \<Longrightarrow> ends_in (?k2 (fst ?r2) (snd ?r2)) q"
  proof (cases "fst ?r2")
    case True
    assume "fst ?r1"
    from ends_in_cdpSend [of ?k3, OF 3 [OF this True]] True show ?thesis by simp
  next
    case False
    assume "fst ?r1"
    with False assms show ?thesis
      by (auto simp: blockResourceTypes_def Let_def intro: ends_in_Step)
  qed
  have 1: "ends_in (?k1 (fst ?r1) (snd ?r1)) q"
  proof (cases "fst ?r1")
    case True
    from ends_in_cdpSend [of ?k2, OF 2 [OF True]] True show ?thesis by simp
  next
    case False
    with assms show ?thesis
      by (auto simp: blockResourceTypes_def Let_def intro: ends_in_Step)
  qed
  from ends_in_network_enable [of ?k1, OF 1] show ?thesis
    by (simp add: blockResourceTypes_async_def)
qed

lemma ends_in_interceptRequests:
  assumes "ends_in (k (fst (interceptRequests env h p)) (snd (interceptRequests env h p))) q"
  shows "ends_in (interceptRequests_async env h k p) q"
proof -
  let ?r1 = "network_enable env p"
  let ?r3 = "cdpSend env FetchEnableAll ((snd ?r1)\<lparr>interceptHandler := h\<rparr>)"
  let ?k3 = "\<lambda>ok3 q. if \<not> ok3 then (q, Step (k False))
                     else (install_onRequestPaused InterceptWithHandler q, Step (k True))"
  let ?k1 = "\<lambda>ok1 q1. if \<not> ok1 then (q1, Step (k False)) else
          cdpSend_async env FetchEnableAll ?k3 (q1\<lparr>interceptHandler := h\<rparr>)"
  have 3: "fst ?r1 \<Longrightarrow> ends_in (?k3 (fst ?r3) (snd ?r3)) q"
    using assms by (auto simp: interceptRequests_def Let_def intro: ends_in_Step)
  have 1: "ends_in (?k1 (fst ?r1) (snd ?r1)) q"
  proof (cases "fst ?r1")
    case True
    from ends_in_cdpSend [of ?k3, OF 3 [OF True]] True show ?thesis by simp
  next
    case False
    with assms show ?thesis
      by (auto simp: interceptRequests_def Let_def intro: ends_in_Step)
  qed
  from ends_in_network_enable [of ?k1, OF 1] show ?thesis
    by (simp add: interceptRequests_async_def)
qed

lemma ends_in_stopInterceptFileChooser:
  assumes "ends_in (k True (stopInterceptFileChooser env p)) q"
  shows "ends_in (stopInterceptFileChooser_async env k p) q"
proof -
  let ?p1 = "case fileChooserListener p of
                  Some l \<Rightarrow> p\<lparr>dbg_listeners := removeListener l (dbg_listeners p),
                               fileChooserListener := None\<rparr>
                | None \<Rightarrow> p"
  let ?r = "cdpSend env (PageSetInterceptFileChooserDialog False) ?p1"
  let ?k = "\<lambda>ok q. (q, Step (k True))"
  have "ends_in (?k (fst ?r) (snd ?r)) q"
    using assms by (auto simp: stopInterceptFileChooser_def Let_def intro: ends_in_Step)
  then have "ends_in (cdpSend_async env (PageSetInterceptFileChooserDialog False) ?k ?p1) q"
    by (rule ends_in_cdpSend)
  then show ?thesis by (simp add: stopInterceptFileChooser_async_def Let_def)
qed

lemma ends_in_interceptFileChooser:
  assumes "ends_in (k (fst (interceptFileChooser env files persistent p))
                      (snd (interceptFileChooser env files persistent p))) q"
  shows "ends_in (interceptFileChooser_async env files persistent k p) q"
proof -
  let ?p1 = "snd (safeAttachDebugger env p)"
  let ?r2 = "cdpSend env PageEnable ?p1"
  let ?r3 = "cdpSend env (PageSetInterceptFileChooserDialog True) (snd ?r2)"
  let ?k3 = "\<lambda>ok3 q. if \<not> ok3 then (q, Step (k False))
                          else (install_fileChooserListener files persistent q,
                                Step (k True))"
  let ?k2 = "\<lambda>ok2. if \<not> ok2 then (\<lambda>q. (q, Step (k False))) else
               cdpSend_async env (PageSetInterceptFileChooserDialog True) ?k3"
  have 3: "fst ?r2 \<Longrightarrow> ends_in (?k3 (fst ?r3) (snd ?r3)) q"
    using assms by (auto simp: interceptFileChooser_def Let_def intro: ends_in_Step)
  have 2: "ends_in (?k2 (fst ?r2) (snd ?r2)) q"
  proof (cases "fst ?r2")
    case True
    from ends_in_cdpSend [of ?k3, OF 3 [OF True]] True show ?thesis by simp
  next
    case False
    with assms show ?thesis
      by (auto simp: interceptFileChooser_def Let_def intro: ends_in_Step)
  qed
  from ends_in_cdpSend [of ?k2, OF 2]
  have "ends_in (cdpSend_async env PageEnable ?k2 ?p1) q" .
  then have "ends_in (safeAttachDebugger_async env (\<lambda>attached_ok.
      cdpSend_async env PageEnable ?k2) p) q"
    by (rule ends_in_safeAttach)
  then show ?thesis by (simp add: interceptFileChooser_async_def)
qed

lemma ends_in_dialogs_enable:
  assumes "ends_in (k (fst (dialogs_enable env options p))
                      (snd (dialogs_enable env options p))) q"
  shows "ends_in (dialogs_enable_async env options k p) q"
proof (cases "dlg_enabled p")
  case True
  with assms show ?thesis
    by (simp add: dialogs_enable_async_def dialogs_enable_def ends_in_Step)
next
  case False
  let ?p1 = "snd (safeAttachDebugger env p)"
  let ?r = "cdpSend env PageEnable ?p1"
  let ?k = "\<lambda>ok q. if \<not> ok then (q, Step (k False))
                          else (install_onDialog options q, Step (k True))"
  have "ends_in (?k (fst ?r) (snd ?r)) q"
    using assms False by (auto simp: dialogs_enable_def Let_def intro: ends_in_Step)
  then have "ends_in (cdpSend_async env PageEnable ?k ?p1) q"
    by (rule ends_in_cdpSend)
  then have "ends_in (safeAttachDebugger_async env (\<lambda>attached_ok.
      cdpSend_async env PageEnable ?k) p) q"
    by (rule ends_in_safeAttach)
  with False show ?thesis by (simp add: dialogs_enable_async_def)
qed

lemma start_call_alone: "ends_in (start_call c p) (call_alone c p)"
  by (cases c)
     (simp_all add: ends_in_finished ends_in_safeAttach ends_in_cdpSend ends_in_network_enable
        ends_in_network_disable ends_in_blockResourceTypes ends_in_interceptRequests
        ends_in_interceptFileChooser ends_in_stopInterceptFileChooser ends_in_dialogs_enable)


lemma ends_in_continue_unmodified:
  "ends_in (continue_unmodified_async env r p) (continue_unmodified env r p)"
  unfolding continue_unmodified_async_def continue_unmodified_def
  by (rule ends_in_cdpSend) (rule ends_in_finished)

lemma ends_in_send_or_fallback:
  "ends_in (send_or_fallback_async env r cmd p) (send_or_fallback env r cmd p)"
  unfolding send_or_fallback_async_def
  by (rule ends_in_cdpSend)
     (simp add: send_or_fallback_def Let_def ends_in_Done ends_in_continue_unmodified)

lemma ends_in_on_block: "ends_in (on_block_async env t r p) (on_block env t r p)"
  by (simp add: on_block_async_def on_block_def ends_in_cdpSend ends_in_finished)

lemma ends_in_on_intercept: "ends_in (on_intercept_async env r p) (on_intercept env r p)"
  by (auto simp: on_intercept_async_def on_intercept_def ends_in_continue_unmodified
      ends_in_send_or_fallback ends_in_Done
      intro!: ends_in_Step split: option.splits handler_outcome.splits)

lemma ends_in_on_dialog: "ends_in (on_dialog_async env d p) (on_dialog env d p)"
  by (auto simp: on_dialog_async_def on_dialog_def Let_def ends_in_cdpSend ends_in_finished
      intro!: ends_in_Step split: option.splits)

lemma ends_in_on_fileChooser:
  "ends_in (on_fileChooser_async env files persistent n p) (on_fileChooser env files persistent n p)"
  unfolding on_fileChooser_async_def
  by (rule ends_in_cdpSend)
     (simp add: on_fileChooser_def Let_def ends_in_Done ends_in_stopInterceptFileChooser
        ends_in_finished)

lemma run_listener_alone:
  "ends_in (run_listener_async env msg l p) (run_listener env msg l p)"
proof -
  obtain i h where l: "l = (i, h)" by (cases l)
  show ?thesis
    unfolding l
    by (cases msg; cases h)
       (simp_all add: ends_in_on_block ends_in_on_intercept ends_in_on_dialog
          ends_in_on_fileChooser ends_in_Done)
qed

text \<open>Of the listeners called with a message, only those of its event-method leave work.\<close>

lemma run_listener_async_other:
  "listens_to (snd l) \<noteq> method_of msg \<Longrightarrow> run_listener_async env msg l p = (p, Done)"
  by (cases l; cases msg; cases "snd l") auto

lemma deliver_async_tasks:
  "length (filter (\<lambda>t. t \<noteq> Done) (snd (deliver_async env msg p))) \<le>
   length (registrations (method_of msg) p)"
proof -
  have "length (filter (\<lambda>t. t \<noteq> Done)
      (snd (fold (\<lambda>l s. let r = run_listener_async env msg l (fst s)
                        in (fst r, snd s @ [snd r])) ls s))) \<le>
    length (filter (\<lambda>t. t \<noteq> Done) (snd s)) +
    length (filter (\<lambda>l. listens_to (snd l) = method_of msg) ls)" for ls s
  proof (induction ls arbitrary: s)
    case Nil
    then show ?case by simp
  next
    case (Cons l ls)
    let ?s = "let r = run_listener_async env msg l (fst s) in (fst r, snd s @ [snd r])"
    have "length (filter (\<lambda>t. t \<noteq> Done) (snd ?s)) \<le>
        length (filter (\<lambda>t. t \<noteq> Done) (snd s)) +
        (if listens_to (snd l) = method_of msg then 1 else 0)"
      by (simp add: Let_def run_listener_async_other)
    with Cons.IH [of ?s] show ?case
      by (cases "listens_to (snd l) = method_of msg") simp_all
  qed
  from this [of "dbg_listeners p" "(p, [])"] show ?thesis
    by (simp add: deliver_async_def registrations_def)
qed

lemma dialogs_enable_registers:
  assumes "chan_inv p" and "\<not> dlg_enabled p" and "fst (dialogs_enable env options p)"
  shows "registrations ''Page.javascriptDialogOpening'' (snd (dialogs_enable env options p)) =
      [(nextClosure p, HandleDialog)]"
proof -
  let ?p2 = "snd (cdpSend env PageEnable (snd (safeAttachDebugger env p)))"
  have s: "same_channel ?p2 p"
    by (intro same_channel_trans [OF same_channel_cdpSend] same_channel_safeAttach)
  from assms(1,2) have "registrations ''Page.javascriptDialogOpening'' p = []"
    by (simp add: chan_inv_def)
  with s have "registrations ''Page.javascriptDialogOpening'' ?p2 = []"
    and "nextClosure ?p2 = nextClosure p"
    by (simp_all add: same_channel_def registrations_def)
  moreover from assms(2,3) have "snd (dialogs_enable env options p) = install_onDialog options ?p2"
    by (simp add: dialogs_enable_def Let_def split: if_splits)
  ultimately show ?thesis
    by (simp add: install_onDialog_def Let_def registrations_def emitter_on_def)
qed

text \<open>
  Claim C1, amended. Take a page after any schedule of calls, resumptions and events, the
  calls overlapping in any way. For \<^verbatim>\<open>Fetch.requestPaused\<close> and for
  \<^verbatim>\<open>Page.fileChooserOpened\<close> at most one handler registration is on the channel. The piece
  of code after the last \<^verbatim>\<open>await\<close> of \<^verbatim>\<open>blockResourceTypes\<close>, of \<^verbatim>\<open>interceptRequests\<close> and
  of \<^verbatim>\<open>interceptFileChooser\<close>, whenever it runs, leaves exactly its own new listener
  registered for its event-method. A call of \<^verbatim>\<open>blockResourceTypes\<close> or
  \<^verbatim>\<open>interceptRequests\<close> that succeeds leaves exactly its own new listener registered for
  \<^verbatim>\<open>Fetch.requestPaused\<close>, and the listener registered before is no longer on the channel;
  the same holds for \<^verbatim>\<open>interceptFileChooser\<close> and \<^verbatim>\<open>Page.fileChooserOpened\<close>. So a paused request is handled by at most one handler (at most
  one of the listeners called leaves work to do) and is not resolved twice: of the commands
  sent when the event is delivered and its handler runs to its end, at most one is accepted.
  For \<^verbatim>\<open>Page.javascriptDialogOpening\<close>, with the calls made in sequence: at most one
  registration is on the channel (as for every event-method); \<^verbatim>\<open>dialogs.enable()\<close> on an
  enabled handler changes nothing, and on a handler that is not enabled a successful
  \<^verbatim>\<open>enable()\<close> leaves exactly its own listener registered.
\<close>

theorem one_handler_per_method:
  "length (registrations ''Fetch.requestPaused''
     (overlapped_page v images animations ua acts)) \<le> 1 \<and>
   length (registrations ''Page.fileChooserOpened''
     (overlapped_page v images animations ua acts)) \<le> 1 \<and>
   registrations ''Fetch.requestPaused''
     (install_onRequestPaused (BlockByType typesArray)
        (overlapped_page v images animations ua acts)) =
     [(nextClosure (overlapped_page v images animations ua acts), BlockByType typesArray)] \<and>
   registrations ''Fetch.requestPaused''
     (install_onRequestPaused InterceptWithHandler
        (overlapped_page v images animations ua acts)) =
     [(nextClosure (overlapped_page v images animations ua acts), InterceptWithHandler)] \<and>
   registrations ''Page.fileChooserOpened''
     (install_fileChooserListener files persistent
        (overlapped_page v images animations ua acts)) =
     [(nextClosure (overlapped_page v images animations ua acts),
       ChooseFiles files persistent)] \<and>
   (fst (blockResourceTypes env typesArray (overlapped_page v images animations ua acts)) \<longrightarrow>
      registrations ''Fetch.requestPaused''
        (snd (blockResourceTypes env typesArray (overlapped_page v images animations ua acts))) =
        [(nextClosure (overlapped_page v images animations ua acts), BlockByType typesArray)] \<and>
      (\<forall>old. onRequestPaused (overlapped_page v images animations ua acts) = Some old \<longrightarrow>
         old \<notin> set (dbg_listeners (snd (blockResourceTypes env typesArray
           (overlapped_page v images animations ua acts)))))) \<and>
   (fst (interceptRequests env h (overlapped_page v images animations ua acts)) \<longrightarrow>
      registrations ''Fetch.requestPaused''
        (snd (interceptRequests env h (overlapped_page v images animations ua acts))) =
        [(nextClosure (overlapped_page v images animations ua acts), InterceptWithHandler)] \<and>
      (\<forall>old. onRequestPaused (overlapped_page v images animations ua acts) = Some old \<longrightarrow>
         old \<notin> set (dbg_listeners (snd (interceptRequests env h
           (overlapped_page v images animations ua acts)))))) \<and>
   (fst (interceptFileChooser env files persistent
           (overlapped_page v images animations ua acts)) \<longrightarrow>
      registrations ''Page.fileChooserOpened''
        (snd (interceptFileChooser env files persistent
           (overlapped_page v images animations ua acts))) =
        [(nextClosure (overlapped_page v images animations ua acts),
          ChooseFiles files persistent)] \<and>
      (\<forall>old. fileChooserListener (overlapped_page v images animations ua acts) = Some old \<longrightarrow>
         old \<notin> set (dbg_listeners (snd (interceptFileChooser env files persistent
           (overlapped_page v images animations ua acts)))))) \<and>
   length (filter (\<lambda>t. t \<noteq> Done)
     (snd (deliver_async env (RequestPaused r)
        (overlapped_page v images animations ua acts)))) \<le> 1 \<and>
   length (filter (send_ok env)
     (sent_since (overlapped_page v images animations ua acts)
        (deliver env (RequestPaused r) (overlapped_page v images animations ua acts)))) \<le> 1 \<and>
   length (registrations m (history_page v images animations ua ops)) \<le> 1 \<and>
   (dlg_enabled (history_page v images animations ua ops) \<longrightarrow>
      dialogs_enable env options (history_page v images animations ua ops) =
        (True, history_page v images animations ua ops)) \<and>
   (\<not> dlg_enabled (history_page v images animations ua ops) \<and>
    fst (dialogs_enable env options (history_page v images animations ua ops)) \<longrightarrow>
      registrations ''Page.javascriptDialogOpening''
        (snd (dialogs_enable env options (history_page v images animations ua ops))) =
        [(nextClosure (history_page v images animations ua ops), HandleDialog)])"
proof -
  let ?p = "overlapped_page v images animations ua acts"
  let ?q = "history_page v images animations ua ops"
  have slot: "slot_inv ?p" by (rule slot_inv_overlapped)
  have inv: "chan_inv ?q"
    unfolding history_page_def by (intro chan_inv_run chan_inv_new)
  have tasks: "length (filter (\<lambda>t. t \<noteq> Done)
     (snd (deliver_async env (RequestPaused r) ?p))) \<le> 1"
    using deliver_async_tasks [of env "RequestPaused r" ?p] slot_inv_at_most_one(1) [OF slot]
    by simp
  have ignored: "dlg_enabled ?q \<longrightarrow> dialogs_enable env options ?q = (True, ?q)"
    by (simp add: dialogs_enable_def)
  have installs:
    "registrations ''Fetch.requestPaused'' (install_onRequestPaused (BlockByType typesArray) ?p) =
       [(nextClosure ?p, BlockByType typesArray)]"
    "registrations ''Fetch.requestPaused'' (install_onRequestPaused InterceptWithHandler ?p) =
       [(nextClosure ?p, InterceptWithHandler)]"
    "registrations ''Page.fileChooserOpened'' (install_fileChooserListener files persistent ?p) =
       [(nextClosure ?p, ChooseFiles files persistent)]"
    by (simp_all add: install_replaces(1) [OF slot] install_chooser_replaces(1) [OF slot])
  show ?thesis
    using slot_inv_at_most_one [OF slot] tasks ignored installs
      blockResourceTypes_replaces [OF slot, of env typesArray]
      interceptRequests_replaces [OF slot, of env h]
      interceptFileChooser_replaces [OF slot, of env files persistent]
      deliver_resolves_once [OF slot, of env r]
      chan_inv_at_most_one [OF inv, of m]
      dialogs_enable_registers [OF inv, of env options]
    by blast
qed

lemma racing_page_fields:
  "onRequestPaused racing_page = Some (3, BlockByType [''Image''])"
  "fileChooserListener racing_page = Some (4, ChooseFiles [''/tmp/a.png''] True)"
  "dbg_listeners racing_page =
     [(3, BlockByType [''Image'']), (4, ChooseFiles [''/tmp/a.png''] True)]"
  "nextClosure racing_page = 5" "attached racing_page" "net_enabled racing_page"
  by code_simp+

lemma racing_page_calls:
  "fst (blockResourceTypes ok_env [''Media''] racing_page)"
  "fst (interceptRequests ok_env None racing_page)"
  "fst (interceptFileChooser ok_env [''/tmp/b.png''] False racing_page)"
  using racing_page_fields
  by (simp_all add: blockResourceTypes_def interceptRequests_def interceptFileChooser_def
      network_enable_def cdpSend_def safeAttachDebugger_def Let_def ok_env_def)

lemma sample_histories:
  "history_page 0 False False None [] = sample_page"
  "history_page 0 False False None [OpDialogsEnable ok_env default_dialog_options] = dialog_page"
  by (simp_all add: history_page_def page_run_def sample_page_def dialog_page_def new_page_def)

lemma dialog_page_fields:
  "dlg_enabled dialog_page" "\<not> dlg_enabled sample_page"
  "fst (dialogs_enable ok_env strict_dialog_options sample_page)"
  "nextClosure sample_page = 2"
  by (simp_all add: dialog_page_def sample_page_def dialogs_enable_def install_onDialog_def
      cdpSend_def safeAttachDebugger_def Let_def ok_env_def new_page_def)

text \<open>
  A page on which \<^verbatim>\<open>blockResourceTypes\<close> and \<^verbatim>\<open>interceptRequests\<close> have overlapped and
  which intercepts file choosers: a second \<^verbatim>\<open>blockResourceTypes\<close>, an
  \<^verbatim>\<open>interceptRequests\<close> and a second \<^verbatim>\<open>interceptFileChooser\<close> each succeed, install their
  listener and remove the one before. A second \<^verbatim>\<open>dialogs.enable()\<close> changes nothing; the
  first one registers its listener.
\<close>

theorem one_handler_per_method_witness:
  "onRequestPaused racing_page = Some (3, BlockByType [''Image'']) \<and>
   fileChooserListener racing_page = Some (4, ChooseFiles [''/tmp/a.png''] True) \<and>
   fst (blockResourceTypes ok_env [''Media''] racing_page) \<and>
   fst (interceptRequests ok_env None racing_page) \<and>
   fst (interceptFileChooser ok_env [''/tmp/b.png''] False racing_page) \<and>
   registrations ''Fetch.requestPaused'' (snd (blockResourceTypes ok_env [''Media''] racing_page)) =
     [(5, BlockByType [''Media''])] \<and>
   (3, BlockByType [''Image'']) \<notin>
     set (dbg_listeners (snd (blockResourceTypes ok_env [''Media''] racing_page))) \<and>
   registrations ''Fetch.requestPaused'' (snd (interceptRequests ok_env None racing_page)) =
     [(5, InterceptWithHandler)] \<and>
   (3, BlockByType [''Image'']) \<notin>
     set (dbg_listeners (snd (interceptRequests ok_env None racing_page))) \<and>
   registrations ''Page.fileChooserOpened''
     (snd (interceptFileChooser ok_env [''/tmp/b.png''] False racing_page)) =
     [(5, ChooseFiles [''/tmp/b.png''] False)] \<and>
   (4, ChooseFiles [''/tmp/a.png''] True) \<notin>
     set (dbg_listeners (snd (interceptFileChooser ok_env [''/tmp/b.png''] False racing_page))) \<and>
   dlg_enabled dialog_page \<and>
   dialogs_enable ok_env strict_dialog_options dialog_page = (True, dialog_page) \<and>
   \<not> dlg_enabled sample_page \<and>
   fst (dialogs_enable ok_env strict_dialog_options sample_page) \<and>
   registrations ''Page.javascriptDialogOpening''
     (snd (dialogs_enable ok_env strict_dialog_options sample_page)) = [(2, HandleDialog)]"
proof -
  from one_handler_per_method [where v = 0 and images = False and animations = False
      and ua = None and acts = racing_calls and env = ok_env and typesArray = "[''Media'']"
      and h = None and files = "[''/tmp/b.png'']" and persistent = False
      and ops = "[OpDialogsEnable ok_env default_dialog_options]"
      and options = strict_dialog_options]
    one_handler_per_method [where v = 0 and images = False and animations = False
      and ua = None and env = ok_env and ops = "[]" and options = strict_dialog_options]
    racing_page_fields racing_page_calls dialog_page_fields
  show ?thesis
    by (simp add: racing_page_def [symmetric] sample_histories)
qed

text \<open>
  Claim C1 as stated, for every event-method and with a second registration replacing the
  first, fails for \<^verbatim>\<open>Page.javascriptDialogOpening\<close>. By the guard
  \<^verbatim>\<open>if (this._enabled) return\<close> a second \<^verbatim>\<open>dialogs.enable()\<close> is ignored: the first
  listener and the first options stay (confirms are still accepted, although the second
  call asked to dismiss them). And the flag \<^verbatim>\<open>_enabled\<close> is set only after the two
  \<^verbatim>\<open>await\<close>s of \<^verbatim>\<open>enable()\<close>: two calls that overlap both pass the guard and both register
  a listener, and a dialog that opens is then answered twice.
\<close>

theorem dialog_enable_counterexample:
  "registrations ''Page.javascriptDialogOpening'' dialog_page = [(2, HandleDialog)] \<and>
   acceptConfirms (defaultOptions dialog_page) \<and>
   dialogs_enable ok_env strict_dialog_options dialog_page = (True, dialog_page) \<and>
   \<not> acceptConfirms (defaultOptions (snd (dialogs_enable ok_env strict_dialog_options sample_page))) \<and>
   registrations ''Page.javascriptDialogOpening'' (fst twice_enabled) =
     [(2, HandleDialog), (3, HandleDialog)] \<and>
   sent_since (fst twice_enabled)
     (deliver ok_env (JavascriptDialogOpening odd_dialog) (fst twice_enabled)) =
     [PageHandleJavaScriptDialog True [], PageHandleJavaScriptDialog True []]"
proof -
  have "registrations ''Page.javascriptDialogOpening'' dialog_page = [(2, HandleDialog)]"
    "acceptConfirms (defaultOptions dialog_page)"
    "\<not> acceptConfirms (defaultOptions (snd (dialogs_enable ok_env strict_dialog_options sample_page)))"
    "registrations ''Page.javascriptDialogOpening'' (fst twice_enabled) =
       [(2, HandleDialog), (3, HandleDialog)]"
    "sent_since (fst twice_enabled)
       (deliver ok_env (JavascriptDialogOpening odd_dialog) (fst twice_enabled)) =
       [PageHandleJavaScriptDialog True [], PageHandleJavaScriptDialog True []]"
    by code_simp+
  moreover have "dialogs_enable ok_env strict_dialog_options dialog_page = (True, dialog_page)"
    using dialog_page_fields(1) by (simp add: dialogs_enable_def)
  ultimately show ?thesis by simp
qed

section \<open>Properties of the manager\<close>

lemma map_get_set: "map_get (map_set m k v) k = Some v"
  by (induction m) auto

lemma map_has_delete: "\<not> map_has (map_delete m k) k"
  by (induction m) (auto split: if_splits)

text \<open>
  Claim C3. \<^verbatim>\<open>createProfile\<close> is idempotent in the id: for an id that is in the profile
  map, the call returns the page of the existing entry and leaves the whole manager (profile
  map, session registry, grid, window) as it was; and a second call for the same id, with
  whatever options, returns the page the first call returned and changes nothing, so no
  second view is created for the id.
\<close>

theorem createProfile_idempotent:
  "(map_get (profiles m) pid = Some e \<longrightarrow> createProfile pid options m = (entry_page e, m)) \<and>
   (createProfile pid options m = (pg, m') \<longrightarrow> createProfile pid options' m' = (pg, m'))"
proof (intro conjI impI)
  assume "map_get (profiles m) pid = Some e"
  then show "createProfile pid options m = (entry_page e, m)"
    by (simp add: createProfile_def)
next
  assume c: "createProfile pid options m = (pg, m')"
  show "createProfile pid options' m' = (pg, m')"
  proof (cases "map_get (profiles m) pid")
    case (Some e)
    with c show ?thesis by (auto simp: createProfile_def)
  next
    case None
    with c have "map_get (profiles m') pid = Some \<lparr>entry_view = nextView m, entry_page = pg\<rparr>"
      by (auto simp: createProfile_def Let_def map_get_set)
    then show ?thesis by (simp add: createProfile_def)
  qed
qed

text \<open>
  The manager with the profile \<open>a\<close>: a second \<^verbatim>\<open>createProfile('a', ...)\<close> with other options
  returns the page of the first call and leaves the manager, with its one view, unchanged.
\<close>

theorem createProfile_idempotent_witness:
  "createProfile ''a'' no_options (new_manager (1000, 600)) = (page_a, manager_a) \<and>
   createProfile ''a'' other_options manager_a = (page_a, manager_a) \<and>
   map fst (views (gridManager manager_a)) = [''a''] \<and> browserViews manager_a = [0]"
proof -
  have c: "createProfile ''a'' no_options (new_manager (1000, 600)) = (page_a, manager_a)"
    by (simp add: manager_a_def page_a_def)
  have v: "map fst (views (gridManager manager_a)) = [''a'']" "browserViews manager_a = [0]"
    by (simp_all add: manager_a_def createProfile_def new_manager_def Let_def new_grid_def
        addView_def autoGrid_def applyLayout_def autoGrid_dims_def)
  from createProfile_idempotent [of "new_manager (1000, 600)" "''a''" undefined no_options
      page_a manager_a other_options]
  have "createProfile ''a'' no_options (new_manager (1000, 600)) = (page_a, manager_a) \<longrightarrow>
      createProfile ''a'' other_options manager_a = (page_a, manager_a)"
    by (rule conjunct2)
  with c v show ?thesis by simp
qed

lemma page_destroy_steps:
  "\<forall>x \<in> set (snd (page_destroy p)). teardown_step x = 1"
  by (auto simp: page_destroy_def Let_def network_destroy_effects_def dialogs_destroy_effects_def
      downloads_destroy_effects_def safeDetachDebugger_effects_def split: option.splits)

lemma network_destroy_fields:
  "destroyed (network_destroy p) = destroyed p" "attached (network_destroy p) = attached p"
  "page_ref (network_destroy p) = page_ref p" "onRequestPaused (network_destroy p) = None"
  "dlg_enabled (network_destroy p) = dlg_enabled p" "dl_enabled (network_destroy p) = dl_enabled p"
  by (simp_all add: network_destroy_def Let_def split: option.splits)

lemma dialogs_destroy_fields:
  "destroyed (dialogs_destroy p) = destroyed p" "attached (dialogs_destroy p) = attached p"
  "page_ref (dialogs_destroy p) = page_ref p"
  "onRequestPaused (dialogs_destroy p) = onRequestPaused p"
  "\<not> dlg_enabled (dialogs_destroy p)" "dl_enabled (dialogs_destroy p) = dl_enabled p"
  by (simp_all add: dialogs_destroy_def dialogs_disable_def Let_def split: option.splits)

lemma downloads_destroy_fields:
  "destroyed (downloads_destroy p) = destroyed p" "attached (downloads_destroy p) = attached p"
  "page_ref (downloads_destroy p) = page_ref p"
  "onRequestPaused (downloads_destroy p) = onRequestPaused p"
  "dlg_enabled (downloads_destroy p) = dlg_enabled p" "\<not> dl_enabled (downloads_destroy p)"
  by (simp_all add: downloads_destroy_def downloads_disable_def Let_def split: option.splits)

lemma safeDetachDebugger_fields:
  "destroyed (safeDetachDebugger p) = destroyed p" "\<not> attached (safeDetachDebugger p)"
  "page_ref (safeDetachDebugger p) = page_ref p"
  "onRequestPaused (safeDetachDebugger p) = onRequestPaused p"
  "dlg_enabled (safeDetachDebugger p) = dlg_enabled p"
  "dl_enabled (safeDetachDebugger p) = dl_enabled p"
  by (simp_all add: safeDetachDebugger_def)

lemmas destroy_fields = network_destroy_fields dialogs_destroy_fields downloads_destroy_fields
  safeDetachDebugger_fields

lemma page_destroy_detaches:
  assumes "\<not> destroyed p"
  shows "\<not> attached (fst (page_destroy p))"
    and "attached p \<Longrightarrow> DebuggerDetach (page_ref p) \<in> set (snd (page_destroy p))"
    and "destroyed (fst (page_destroy p))"
    and "onRequestPaused (fst (page_destroy p)) = None"
    and "\<not> dlg_enabled (fst (page_destroy p))" and "\<not> dl_enabled (fst (page_destroy p))"
  using assms
  by (simp_all add: page_destroy_def Let_def destroy_fields safeDetachDebugger_effects_def)

lemma sorted_const: "\<forall>x \<in> set xs. f x = (c::nat) \<Longrightarrow> sorted (map f xs)"
  by (induction xs) auto

lemma sorted_steps:
  assumes "\<forall>x \<in> set d. teardown_step x = 1" and "\<forall>x \<in> set s. teardown_step x = 5"
  shows "sorted (map teardown_step (d @ [GridRemoveView pid, WindowRemoveBrowserView v,
    WebContentsClose v a] @ s))"
  using assms sorted_const [OF assms(1)] sorted_const [OF assms(2)]
  by (auto simp: sorted_append)

lemma filter_steps:
  assumes "\<forall>x \<in> set d. teardown_step x = 1" and "\<forall>x \<in> set s. teardown_step x = 5"
  shows "filter (\<lambda>x. teardown_step x \<in> {2, 3, 4}) (d @ [GridRemoveView pid,
      WindowRemoveBrowserView v, WebContentsClose v a] @ s) =
    [GridRemoveView pid, WindowRemoveBrowserView v, WebContentsClose v a]"
    and "filter (\<lambda>x. teardown_step x = 5) (d @ [GridRemoveView pid,
      WindowRemoveBrowserView v, WebContentsClose v a] @ s) = s"
    and "filter (\<lambda>x. teardown_step x = 1) (d @ [GridRemoveView pid,
      WindowRemoveBrowserView v, WebContentsClose v a] @ s) = d"
proof -
  from assms have "filter (\<lambda>x. teardown_step x \<in> {2, 3, 4}) d = []"
    "filter (\<lambda>x. teardown_step x \<in> {2, 3, 4}) s = []"
    "filter (\<lambda>x. teardown_step x = 5) d = []" "filter (\<lambda>x. teardown_step x = 5) s = s"
    "filter (\<lambda>x. teardown_step x = 1) d = d" "filter (\<lambda>x. teardown_step x = 1) s = []"
    by (simp_all add: filter_empty_conv filter_id_conv)
  then show "filter (\<lambda>x. teardown_step x \<in> {2, 3, 4}) (d @ [GridRemoveView pid,
      WindowRemoveBrowserView v, WebContentsClose v a] @ s) =
    [GridRemoveView pid, WindowRemoveBrowserView v, WebContentsClose v a]"
    and "filter (\<lambda>x. teardown_step x = 5) (d @ [GridRemoveView pid,
      WindowRemoveBrowserView v, WebContentsClose v a] @ s) = s"
    and "filter (\<lambda>x. teardown_step x = 1) (d @ [GridRemoveView pid,
      WindowRemoveBrowserView v, WebContentsClose v a] @ s) = d"
    by simp_all
qed

lemma destroyProfile_effects:
  assumes "map_get (profiles m) pid = Some e"
  shows "snd (destroyProfile env pid m) =
    snd (page_destroy (entry_page e)) @
    [GridRemoveView pid, WindowRemoveBrowserView (entry_view e),
     WebContentsClose (entry_view e) (attached (fst (page_destroy (entry_page e))))] @
    map (\<lambda>c. SessionCall (fst c) (snd c)) (snd (pm_destroy (session_fails env) pid (profileManager m)))"
  using assms by (simp add: destroyProfile_def Let_def)

lemma removeView_untracks: "\<not> map_has (views (removeView pid g)) pid"
  by (simp add: removeView_def Let_def map_has_delete)

lemma map_has_keys: "map_has m k = (k \<in> set (map fst m))"
  by (induction m) auto

lemma autoGrid_keys: "map fst (views (autoGrid g)) = map fst (views g)"
proof -
  have "map fst (map (layout_maximized mid w h) xs) = map fst xs" for mid w h xs
    by (induction xs) (simp_all add: layout_maximized_def)
  then show ?thesis
    by (simp add: autoGrid_def Let_def applyLayout_def layout_cells_keys)
qed

lemma autoGrid_has: "map_has (views (autoGrid g)) k = map_has (views g) k"
  by (simp add: map_has_keys autoGrid_keys del: set_map)

text \<open>What the teardown of a page calls and what it leaves, field by field.\<close>

lemma network_destroy_more:
  "dbg_listeners (network_destroy p) = removed (onRequestPaused p) (dbg_listeners p)"
  "interceptHandler (network_destroy p) = None" "\<not> net_enabled (network_destroy p)"
  "onDialog (network_destroy p) = onDialog p" "dialogHistory (network_destroy p) = dialogHistory p"
  "downloads (network_destroy p) = downloads p" "onWillDownload (network_destroy p) = onWillDownload p"
  "session_listeners (network_destroy p) = session_listeners p"
  "wc_listeners (network_destroy p) = wc_listeners p"
  "fileChooserListener (network_destroy p) = fileChooserListener p"
  by (cases "onRequestPaused p"; simp add: network_destroy_def Let_def removed_def)+

lemma dialogs_destroy_more:
  "dbg_listeners (dialogs_destroy p) =
     removed (if dlg_enabled p then onDialog p else None) (dbg_listeners p)"
  "interceptHandler (dialogs_destroy p) = interceptHandler p"
  "net_enabled (dialogs_destroy p) = net_enabled p"
  "dialogHistory (dialogs_destroy p) = []"
  "downloads (dialogs_destroy p) = downloads p" "onWillDownload (dialogs_destroy p) = onWillDownload p"
  "session_listeners (dialogs_destroy p) = session_listeners p"
  "wc_listeners (dialogs_destroy p) = wc_listeners p"
  "fileChooserListener (dialogs_destroy p) = fileChooserListener p"
  by (cases "onDialog p"; simp add: dialogs_destroy_def dialogs_disable_def Let_def removed_def)+

lemma downloads_destroy_more:
  "dbg_listeners (downloads_destroy p) = dbg_listeners p"
  "interceptHandler (downloads_destroy p) = interceptHandler p"
  "net_enabled (downloads_destroy p) = net_enabled p"
  "dialogHistory (downloads_destroy p) = dialogHistory p"
  "downloads (downloads_destroy p) = []"
  "session_listeners (downloads_destroy p) =
     (if dl_enabled p
      then case onWillDownload p of
             Some l \<Rightarrow> removeListener (''will-download'', l) (session_listeners p)
           | None \<Rightarrow> session_listeners p
      else session_listeners p)"
  "wc_listeners (downloads_destroy p) = wc_listeners p"
  "fileChooserListener (downloads_destroy p) = fileChooserListener p"
  by (cases "onWillDownload p"; simp add: downloads_destroy_def downloads_disable_def Let_def)+

lemma safeDetachDebugger_more:
  "dbg_listeners (safeDetachDebugger p) = dbg_listeners p"
  "interceptHandler (safeDetachDebugger p) = interceptHandler p"
  "net_enabled (safeDetachDebugger p) = net_enabled p"
  "dialogHistory (safeDetachDebugger p) = dialogHistory p"
  "downloads (safeDetachDebugger p) = downloads p"
  "session_listeners (safeDetachDebugger p) = session_listeners p"
  "wc_listeners (safeDetachDebugger p) = wc_listeners p"
  "fileChooserListener (safeDetachDebugger p) = fileChooserListener p"
  by (simp_all add: safeDetachDebugger_def)

lemmas destroy_more = network_destroy_more dialogs_destroy_more downloads_destroy_more
  safeDetachDebugger_more

lemma destroy_effects:
  "network_destroy_effects p =
     map (\<lambda>l. DebuggerRemoveListener (page_ref p) (fst l)) (option_list (onRequestPaused p))"
  "dialogs_destroy_effects p =
     (if dlg_enabled p
      then map (\<lambda>l. DebuggerRemoveListener (page_ref p) (fst l)) (option_list (onDialog p))
      else [])"
  "downloads_destroy_effects p =
     map (\<lambda>d. DownloadCancel (page_ref p) (fst d))
       (filter (\<lambda>d. snd d = Progressing) (downloads p)) @
     (if dl_enabled p
      then map (\<lambda>l. SessionRemoveListener (page_ref p)) (option_list (onWillDownload p))
      else [])"
  by (cases "onRequestPaused p"; cases "onDialog p"; cases "onWillDownload p";
      simp add: network_destroy_effects_def dialogs_destroy_effects_def
        downloads_destroy_effects_def)+

lemma page_destroy_effects:
  assumes "\<not> destroyed p"
  shows "snd (page_destroy p) =
     [WcRemoveListener (page_ref p) ''did-finish-load'',
      WcRemoveListener (page_ref p) ''render-process-gone''] @
     map (\<lambda>l. DebuggerRemoveListener (page_ref p) (fst l)) (option_list (onRequestPaused p)) @
     (if dlg_enabled p
      then map (\<lambda>l. DebuggerRemoveListener (page_ref p) (fst l)) (option_list (onDialog p))
      else []) @
     map (\<lambda>d. DownloadCancel (page_ref p) (fst d))
       (filter (\<lambda>d. snd d = Progressing) (downloads p)) @
     (if dl_enabled p
      then map (\<lambda>l. SessionRemoveListener (page_ref p)) (option_list (onWillDownload p))
      else []) @
     (if attached p then [DebuggerDetach (page_ref p)] else [])"
  using assms
  by (simp add: page_destroy_def Let_def destroy_effects destroy_fields destroy_more
      safeDetachDebugger_effects_def)

lemma page_destroy_state:
  assumes "\<not> destroyed p"
  shows "interceptHandler (fst (page_destroy p)) = None"
    "\<not> net_enabled (fst (page_destroy p))"
    "dialogHistory (fst (page_destroy p)) = []"
    "downloads (fst (page_destroy p)) = []"
    "dbg_listeners (fst (page_destroy p)) =
       removed (if dlg_enabled p then onDialog p else None)
         (removed (onRequestPaused p) (dbg_listeners p))"
    "session_listeners (fst (page_destroy p)) =
       (if dl_enabled p
        then case onWillDownload p of
               Some l \<Rightarrow> removeListener (''will-download'', l) (session_listeners p)
             | None \<Rightarrow> session_listeners p
        else session_listeners p)"
    "wc_listeners (fst (page_destroy p)) =
       removeListener (''render-process-gone'', onCrash p)
         (removeListener (''did-finish-load'', onFinishLoad p) (wc_listeners p))"
    "fileChooserListener (fst (page_destroy p)) = fileChooserListener p"
  using assms
  by (simp_all add: page_destroy_def Let_def destroy_fields destroy_more cong: option.case_cong)


lemma page_destroy_unregisters:
  "slot_inv p \<Longrightarrow> \<not> destroyed p \<Longrightarrow>
     registrations ''Fetch.requestPaused'' (fst (page_destroy p)) = []"
  "chan_inv p \<Longrightarrow> \<not> destroyed p \<Longrightarrow>
     registrations ''Page.javascriptDialogOpening'' (fst (page_destroy p)) = []"
proof -
  assume "slot_inv p" and d: "\<not> destroyed p"
  then have "slot_inv (fst (page_destroy p))" by (simp add: slot_inv_page_destroy)
  with d show "registrations ''Fetch.requestPaused'' (fst (page_destroy p)) = []"
    by (simp add: slot_inv_def page_destroy_detaches)
next
  assume "chan_inv p" and d: "\<not> destroyed p"
  then have "chan_inv (fst (page_destroy p))" by (simp add: chan_inv_page_destroy)
  with d show "registrations ''Page.javascriptDialogOpening'' (fst (page_destroy p)) = []"
    by (auto simp: chan_inv_def page_destroy_detaches)
qed

text \<open>
  Claim C2, amended. For a profile id that is in the registry and whose page handle has not
  been destroyed before, \<^verbatim>\<open>destroyProfile(id)\<close> makes its calls in the order of the five
  steps. Step (1) is exactly this: the two listeners of the page are removed from the
  \<^verbatim>\<open>webContents\<close>; the listener of the network module, if it has one, and the listener of
  an enabled dialog handler are removed from the debugger; every download in progress is
  cancelled and the \<^verbatim>\<open>will-download\<close> listener of an enabled download manager is removed
  from the session; the channel, when attached, is detached. Afterwards the handle is
  destroyed and detached, its network, dialog and download modules are disabled and hold no
  listener, no handler, no history and no download, and the listeners left on the debugger,
  the session and the \<^verbatim>\<open>webContents\<close> are those from before without the ones removed: on
  a page reached by any schedule of overlapping calls no \<^verbatim>\<open>Fetch.requestPaused\<close> listener
  is left, on a page reached by calls made in sequence no dialog listener either. Then
  come exactly one unregistration from the grid, one removal of the view from the window
  and one close of the content context, with the channel detached, then the session
  registry's destroy. Afterwards the id is in no map of the manager. For an id that is not
  in the registry \<^verbatim>\<open>destroyProfile\<close> does nothing.
\<close>

theorem destroyProfile_order:
  "(map_get (profiles m) pid = Some e \<and> \<not> destroyed (entry_page e) \<longrightarrow>
      sorted (map teardown_step (snd (destroyProfile env pid m))) \<and>
      filter (\<lambda>x. teardown_step x = 1) (snd (destroyProfile env pid m)) =
        [WcRemoveListener (page_ref (entry_page e)) ''did-finish-load'',
         WcRemoveListener (page_ref (entry_page e)) ''render-process-gone''] @
        map (\<lambda>l. DebuggerRemoveListener (page_ref (entry_page e)) (fst l))
          (option_list (onRequestPaused (entry_page e))) @
        (if dlg_enabled (entry_page e)
         then map (\<lambda>l. DebuggerRemoveListener (page_ref (entry_page e)) (fst l))
                (option_list (onDialog (entry_page e)))
         else []) @
        map (\<lambda>d. DownloadCancel (page_ref (entry_page e)) (fst d))
          (filter (\<lambda>d. snd d = Progressing) (downloads (entry_page e))) @
        (if dl_enabled (entry_page e)
         then map (\<lambda>l. SessionRemoveListener (page_ref (entry_page e)))
                (option_list (onWillDownload (entry_page e)))
         else []) @
        (if attached (entry_page e) then [DebuggerDetach (page_ref (entry_page e))] else []) \<and>
      destroyed (fst (page_destroy (entry_page e))) \<and>
      \<not> attached (fst (page_destroy (entry_page e))) \<and>
      onRequestPaused (fst (page_destroy (entry_page e))) = None \<and>
      interceptHandler (fst (page_destroy (entry_page e))) = None \<and>
      \<not> net_enabled (fst (page_destroy (entry_page e))) \<and>
      \<not> dlg_enabled (fst (page_destroy (entry_page e))) \<and>
      dialogHistory (fst (page_destroy (entry_page e))) = [] \<and>
      \<not> dl_enabled (fst (page_destroy (entry_page e))) \<and>
      downloads (fst (page_destroy (entry_page e))) = [] \<and>
      dbg_listeners (fst (page_destroy (entry_page e))) =
        removed (if dlg_enabled (entry_page e) then onDialog (entry_page e) else None)
          (removed (onRequestPaused (entry_page e)) (dbg_listeners (entry_page e))) \<and>
      session_listeners (fst (page_destroy (entry_page e))) =
        (if dl_enabled (entry_page e)
         then case onWillDownload (entry_page e) of
                Some l \<Rightarrow> removeListener (''will-download'', l) (session_listeners (entry_page e))
              | None \<Rightarrow> session_listeners (entry_page e)
         else session_listeners (entry_page e)) \<and>
      wc_listeners (fst (page_destroy (entry_page e))) =
        removeListener (''render-process-gone'', onCrash (entry_page e))
          (removeListener (''did-finish-load'', onFinishLoad (entry_page e))
             (wc_listeners (entry_page e))) \<and>
      (entry_page e = overlapped_page v images animations ua acts \<longrightarrow>
         registrations ''Fetch.requestPaused'' (fst (page_destroy (entry_page e))) = []) \<and>
      (entry_page e = history_page v images animations ua ops \<longrightarrow>
         registrations ''Fetch.requestPaused'' (fst (page_destroy (entry_page e))) = [] \<and>
         registrations ''Page.javascriptDialogOpening'' (fst (page_destroy (entry_page e))) = []) \<and>
      (attached (entry_page e) \<longrightarrow>
         DebuggerDetach (page_ref (entry_page e)) \<in> set (snd (destroyProfile env pid m))) \<and>
      filter (\<lambda>x. teardown_step x \<in> {2, 3, 4}) (snd (destroyProfile env pid m)) =
        [GridRemoveView pid, WindowRemoveBrowserView (entry_view e),
         WebContentsClose (entry_view e) False] \<and>
      filter (\<lambda>x. teardown_step x = 5) (snd (destroyProfile env pid m)) =
        map (\<lambda>c. SessionCall (fst c) (snd c))
          (snd (pm_destroy (session_fails env) pid (profileManager m))) \<and>
      map_get (profiles (fst (destroyProfile env pid m))) pid = None \<and>
      map_get (profileManager (fst (destroyProfile env pid m))) pid = None \<and>
      \<not> map_has (views (gridManager (fst (destroyProfile env pid m)))) pid) \<and>
   (map_get (profiles m) pid = None \<longrightarrow> destroyProfile env pid m = (m, []))"
proof (intro conjI impI)
  assume "map_get (profiles m) pid = None"
  then show "destroyProfile env pid m = (m, [])" by (simp add: destroyProfile_def)
next
  assume a: "map_get (profiles m) pid = Some e \<and> \<not> destroyed (entry_page e)"
  let ?p = "entry_page e"
  let ?d = "snd (page_destroy ?p)"
  let ?s = "map (\<lambda>c. SessionCall (fst c) (snd c))
      (snd (pm_destroy (session_fails env) pid (profileManager m)))"
  from a have nd: "\<not> destroyed ?p" by simp
  have d: "\<forall>x \<in> set ?d. teardown_step x = 1" by (rule page_destroy_steps)
  have s: "\<forall>x \<in> set ?s. teardown_step x = 5" by simp
  from a have eff: "snd (destroyProfile env pid m) =
      ?d @ [GridRemoveView pid, WindowRemoveBrowserView (entry_view e),
        WebContentsClose (entry_view e) False] @ ?s"
    by (simp add: destroyProfile_effects page_destroy_detaches(1))
  show "sorted (map teardown_step (snd (destroyProfile env pid m)))"
    unfolding eff using d s by (rule sorted_steps)
  have "filter (\<lambda>x. teardown_step x = 1) (snd (destroyProfile env pid m)) = ?d"
    unfolding eff using d s by (rule filter_steps(3))
  then show "filter (\<lambda>x. teardown_step x = 1) (snd (destroyProfile env pid m)) =
        [WcRemoveListener (page_ref ?p) ''did-finish-load'',
         WcRemoveListener (page_ref ?p) ''render-process-gone''] @
        map (\<lambda>l. DebuggerRemoveListener (page_ref ?p) (fst l)) (option_list (onRequestPaused ?p)) @
        (if dlg_enabled ?p
         then map (\<lambda>l. DebuggerRemoveListener (page_ref ?p) (fst l)) (option_list (onDialog ?p))
         else []) @
        map (\<lambda>d. DownloadCancel (page_ref ?p) (fst d))
          (filter (\<lambda>d. snd d = Progressing) (downloads ?p)) @
        (if dl_enabled ?p
         then map (\<lambda>l. SessionRemoveListener (page_ref ?p)) (option_list (onWillDownload ?p))
         else []) @
        (if attached ?p then [DebuggerDetach (page_ref ?p)] else [])"
    by (simp only: page_destroy_effects [OF nd])
  show "filter (\<lambda>x. teardown_step x \<in> {2, 3, 4}) (snd (destroyProfile env pid m)) =
      [GridRemoveView pid, WindowRemoveBrowserView (entry_view e),
       WebContentsClose (entry_view e) False]"
    unfolding eff using d s by (rule filter_steps(1))
  show "filter (\<lambda>x. teardown_step x = 5) (snd (destroyProfile env pid m)) = ?s"
    unfolding eff using d s by (rule filter_steps(2))
  from nd show "destroyed (fst (page_destroy ?p))" "\<not> attached (fst (page_destroy ?p))"
    "onRequestPaused (fst (page_destroy ?p)) = None"
    "\<not> dlg_enabled (fst (page_destroy ?p))" "\<not> dl_enabled (fst (page_destroy ?p))"
    by (simp_all add: page_destroy_detaches)
  from nd show "interceptHandler (fst (page_destroy ?p)) = None"
    "\<not> net_enabled (fst (page_destroy ?p))"
    "dialogHistory (fst (page_destroy ?p)) = []"
    "downloads (fst (page_destroy ?p)) = []"
    by (simp_all add: page_destroy_state)
  from nd show "dbg_listeners (fst (page_destroy ?p)) =
        removed (if dlg_enabled ?p then onDialog ?p else None)
          (removed (onRequestPaused ?p) (dbg_listeners ?p))"
    by (rule page_destroy_state(5))
  from nd show "session_listeners (fst (page_destroy ?p)) =
        (if dl_enabled ?p
         then case onWillDownload ?p of
                Some l \<Rightarrow> removeListener (''will-download'', l) (session_listeners ?p)
              | None \<Rightarrow> session_listeners ?p
         else session_listeners ?p)"
    by (rule page_destroy_state(6))
  from nd show "wc_listeners (fst (page_destroy ?p)) =
        removeListener (''render-process-gone'', onCrash ?p)
          (removeListener (''did-finish-load'', onFinishLoad ?p) (wc_listeners ?p))"
    by (rule page_destroy_state(7))
  from a show "map_get (profiles (fst (destroyProfile env pid m))) pid = None"
    by (simp add: destroyProfile_def Let_def map_get_delete)
  from a show "map_get (profileManager (fst (destroyProfile env pid m))) pid = None"
    using pm_destroy_removes [of "session_fails env" pid "profileManager m"]
    by (simp add: destroyProfile_def Let_def)
  from a show "\<not> map_has (views (gridManager (fst (destroyProfile env pid m)))) pid"
    using removeView_untracks [of pid "gridManager m"]
    by (simp add: destroyProfile_def Let_def autoGrid_has)
next
  assume a: "map_get (profiles m) pid = Some e \<and> \<not> destroyed (entry_page e)"
    and "attached (entry_page e)"
  then have "DebuggerDetach (page_ref (entry_page e)) \<in> set (snd (page_destroy (entry_page e)))"
    by (simp add: page_destroy_detaches(2))
  with a show "DebuggerDetach (page_ref (entry_page e)) \<in> set (snd (destroyProfile env pid m))"
    by (simp add: destroyProfile_effects)
next
  assume a: "map_get (profiles m) pid = Some e \<and> \<not> destroyed (entry_page e)"
    and r: "entry_page e = overlapped_page v images animations ua acts"
  have "slot_inv (entry_page e)" unfolding r by (rule slot_inv_overlapped)
  with a show "registrations ''Fetch.requestPaused'' (fst (page_destroy (entry_page e))) = []"
    by (simp add: page_destroy_unregisters(1))
next
  assume a: "map_get (profiles m) pid = Some e \<and> \<not> destroyed (entry_page e)"
    and r: "entry_page e = history_page v images animations ua ops"
  have inv: "chan_inv (entry_page e)"
    unfolding r history_page_def by (intro chan_inv_run chan_inv_new)
  with a show "registrations ''Page.javascriptDialogOpening'' (fst (page_destroy (entry_page e))) = []"
    by (simp add: page_destroy_unregisters(2))
  from inv have "slot_inv (entry_page e)" by (rule chan_inv_slot)
  with a show "registrations ''Fetch.requestPaused'' (fst (page_destroy (entry_page e))) = []"
    by (simp add: page_destroy_unregisters(1))
qed

lemma manager_a_maps:
  "profiles manager_a = [(''a'', \<lparr>entry_view = 0, entry_page = new_page 0 False False\<rparr>)]"
  "profileManager manager_a =
     [(''a'', \<lparr>partition_key = ''persist:a'', proxy = None, userAgent = None\<rparr>)]"
  by (simp_all add: manager_a_def createProfile_def new_manager_def Let_def pm_create_def
      no_options_def or_null_def new_page_def)

lemma reused_page:
  "destroyed (snd (network_enable ok_env (fst (page_destroy (new_page 0 False False)))))"
  "attached (snd (network_enable ok_env (fst (page_destroy (new_page 0 False False)))))"
  by (simp_all add: page_destroy_def Let_def network_enable_def cdpSend_def
      safeAttachDebugger_def ok_env_def new_page_def network_destroy_def dialogs_destroy_def
      dialogs_disable_def downloads_destroy_def downloads_disable_def safeDetachDebugger_def)

lemma manager_a_busy_maps:
  "map_get (profiles manager_a_busy) ''a'' = Some \<lparr>entry_view = 0, entry_page = handlers_page\<rparr>"
  "map_get (profiles manager_a_busy) ''b'' = None"
  "profileManager manager_a_busy =
     [(''a'', \<lparr>partition_key = ''persist:a'', proxy = None, userAgent = None\<rparr>)]"
  "map_get (profiles manager_a_racing) ''a'' = Some \<lparr>entry_view = 0, entry_page = racing_page\<rparr>"
  by (simp_all add: manager_a_busy_def manager_a_racing_def on_page_def manager_a_maps
      handlers_page_def history_page_def racing_page_def overlapped_page_def new_page_def)

lemma handlers_page_fields:
  "\<not> destroyed handlers_page" "attached handlers_page" "page_ref handlers_page = 0"
  "onRequestPaused handlers_page = Some (2, BlockByType [''Image''])"
  "dlg_enabled handlers_page" "onDialog handlers_page = Some (3, HandleDialog)"
  "fileChooserListener handlers_page = Some (4, ChooseFiles [''/tmp/a.png''] True)"
  "dl_enabled handlers_page" "onWillDownload handlers_page = Some (5, True)"
  "downloads handlers_page = [(1, Progressing)]"
  "session_listeners handlers_page = [(''will-download'', 5, True)]"
  "dbg_listeners handlers_page =
     [(2, BlockByType [''Image'']), (3, HandleDialog), (4, ChooseFiles [''/tmp/a.png''] True)]"
  "\<not> destroyed racing_page"
  by code_simp+

text \<open>
  The profile \<open>a\<close> with images blocked, dialogs handled, file choosers intercepted and a
  download in progress: the teardown removes the page's listeners, the listeners of the
  network module and of the dialog handler, cancels the download, removes the session's
  listener and detaches the channel; then it unregisters and removes the view, closes the
  context with the channel detached, and clears the session. The same profile after
  overlapping calls has no \<^verbatim>\<open>Fetch.requestPaused\<close> listener left; for the unknown id \<open>b\<close>
  nothing happens.
\<close>

theorem destroyProfile_order_witness:
  "map_get (profiles manager_a_busy) ''a'' =
     Some \<lparr>entry_view = 0, entry_page = handlers_page\<rparr> \<and>
   \<not> destroyed handlers_page \<and> attached handlers_page \<and>
   onRequestPaused handlers_page = Some (2, BlockByType [''Image'']) \<and>
   dlg_enabled handlers_page \<and> onDialog handlers_page = Some (3, HandleDialog) \<and>
   dl_enabled handlers_page \<and> onWillDownload handlers_page = Some (5, True) \<and>
   downloads handlers_page = [(1, Progressing)] \<and>
   snd (destroyProfile calm_env ''a'' manager_a_busy) =
     [WcRemoveListener 0 ''did-finish-load'', WcRemoveListener 0 ''render-process-gone'',
      DebuggerRemoveListener 0 2, DebuggerRemoveListener 0 3, DownloadCancel 0 1,
      SessionRemoveListener 0, DebuggerDetach 0,
      GridRemoveView ''a'', WindowRemoveBrowserView 0, WebContentsClose 0 False,
      SessionCall ''persist:a'' ClearStorageData, SessionCall ''persist:a'' ClearCache,
      SessionCall ''persist:a'' ClearAuthCache] \<and>
   sorted (map teardown_step (snd (destroyProfile calm_env ''a'' manager_a_busy))) \<and>
   filter (\<lambda>x. teardown_step x = 1) (snd (destroyProfile calm_env ''a'' manager_a_busy)) =
     [WcRemoveListener 0 ''did-finish-load'', WcRemoveListener 0 ''render-process-gone'',
      DebuggerRemoveListener 0 2, DebuggerRemoveListener 0 3, DownloadCancel 0 1,
      SessionRemoveListener 0, DebuggerDetach 0] \<and>
   \<not> attached (fst (page_destroy handlers_page)) \<and>
   onRequestPaused (fst (page_destroy handlers_page)) = None \<and>
   \<not> dlg_enabled (fst (page_destroy handlers_page)) \<and>
   \<not> dl_enabled (fst (page_destroy handlers_page)) \<and>
   downloads (fst (page_destroy handlers_page)) = [] \<and>
   session_listeners (fst (page_destroy handlers_page)) = [] \<and>
   registrations ''Fetch.requestPaused'' (fst (page_destroy handlers_page)) = [] \<and>
   registrations ''Page.javascriptDialogOpening'' (fst (page_destroy handlers_page)) = [] \<and>
   map_get (profiles (fst (destroyProfile calm_env ''a'' manager_a_busy))) ''a'' = None \<and>
   map_get (profiles manager_a_racing) ''a'' =
     Some \<lparr>entry_view = 0, entry_page = racing_page\<rparr> \<and>
   \<not> destroyed racing_page \<and>
   registrations ''Fetch.requestPaused'' (fst (page_destroy racing_page)) = [] \<and>
   map_get (profiles manager_a_busy) ''b'' = None \<and>
   destroyProfile calm_env ''b'' manager_a_busy = (manager_a_busy, [])"
proof -
  note g = manager_a_busy_maps
  note f = handlers_page_fields
  have e: "snd (destroyProfile calm_env ''a'' manager_a_busy) =
     [WcRemoveListener 0 ''did-finish-load'', WcRemoveListener 0 ''render-process-gone'',
      DebuggerRemoveListener 0 2, DebuggerRemoveListener 0 3, DownloadCancel 0 1,
      SessionRemoveListener 0, DebuggerDetach 0,
      GridRemoveView ''a'', WindowRemoveBrowserView 0, WebContentsClose 0 False,
      SessionCall ''persist:a'' ClearStorageData, SessionCall ''persist:a'' ClearCache,
      SessionCall ''persist:a'' ClearAuthCache]"
    using g f
    by (simp add: destroyProfile_effects page_destroy_detaches(1) page_destroy_effects
        pm_destroy_def calm_env_def never_fails_def)
  from destroyProfile_order [where m = manager_a_busy and pid = "''a''"
      and e = "\<lparr>entry_view = 0, entry_page = history_page 0 False False None handlers_ops\<rparr>"
      and env = calm_env and v = 0 and images = False and animations = False and ua = None
      and ops = handlers_ops]
    destroyProfile_order [where m = manager_a_racing and pid = "''a''"
      and e = "\<lparr>entry_view = 0,
                entry_page = overlapped_page 0 False False None racing_calls\<rparr>"
      and env = calm_env and v = 0 and images = False and animations = False and ua = None
      and acts = racing_calls]
    destroyProfile_order [where m = manager_a_busy and pid = "''b''" and env = calm_env]
    g f e
  show ?thesis
    by (simp add: handlers_page_def [symmetric] racing_page_def [symmetric] removed_def
        removeListener_def pm_destroy_def calm_env_def never_fails_def)
qed

text \<open>
  The listener of \<^verbatim>\<open>interceptFileChooser\<close> is kept by the page itself, not by a
  sub-module, and \<^verbatim>\<open>destroy()\<close> does not remove it: it stays registered on the debugger.
\<close>

lemma page_destroy_keeps_fileChooserListener:
  "fileChooserListener (fst (page_destroy handlers_page)) =
     Some (4, ChooseFiles [''/tmp/a.png''] True)"
  "registrations ''Page.fileChooserOpened'' (fst (page_destroy handlers_page)) =
     [(4, ChooseFiles [''/tmp/a.png''] True)]"
  using handlers_page_fields
  by (simp_all add: page_destroy_state registrations_def removed_def removeListener_def)

text \<open>
  Claim C2 as stated, for every id in the registry, fails where \<^verbatim>\<open>ElectronPage.destroy\<close>
  returns at once because the page was destroyed before: the caller has called
  \<^verbatim>\<open>destroy()\<close> on the handle of \<open>a\<close> and then \<^verbatim>\<open>network.enable()\<close>, which attaches the
  channel again. \<^verbatim>\<open>destroyProfile('a')\<close> then makes no call of step (1), and the content
  context is closed while the channel is attached.
\<close>

theorem destroyProfile_reused_handle_counterexample:
  "map_get (profiles manager_a_reused) ''a'' \<noteq> None \<and>
   snd (destroyProfile calm_env ''a'' manager_a_reused) =
     [GridRemoveView ''a'', WindowRemoveBrowserView 0, WebContentsClose 0 True,
      SessionCall ''persist:a'' ClearStorageData, SessionCall ''persist:a'' ClearCache,
      SessionCall ''persist:a'' ClearAuthCache] \<and>
   DebuggerDetach 0 \<notin> set (snd (destroyProfile calm_env ''a'' manager_a_reused))"
proof -
  let ?e = "\<lparr>entry_view = 0,
    entry_page = snd (network_enable ok_env (fst (page_destroy (new_page 0 False False))))\<rparr>"
  have g: "map_get (profiles manager_a_reused) ''a'' = Some ?e"
    "profileManager manager_a_reused =
       [(''a'', \<lparr>partition_key = ''persist:a'', proxy = None, userAgent = None\<rparr>)]"
    by (simp_all add: manager_a_reused_def on_page_def manager_a_maps)
  have "snd (destroyProfile calm_env ''a'' manager_a_reused) =
     [GridRemoveView ''a'', WindowRemoveBrowserView 0, WebContentsClose 0 True,
      SessionCall ''persist:a'' ClearStorageData, SessionCall ''persist:a'' ClearCache,
      SessionCall ''persist:a'' ClearAuthCache]"
    using g reused_page
    by (simp add: destroyProfile_effects page_destroy_def pm_destroy_def calm_env_def
        never_fails_def)
  with g show ?thesis by simp
qed

end
